theory Spec2Isabelle
  imports Main "HOL-Library.AList"
begin

section \<open>Python values\<close>

text \<open>
  The spider of \<^verbatim>\<open>assessorai_crawler/spiders/sp-sao-paulo.py\<close> works on what
  \<^verbatim>\<open>json.loads\<close> returns: \<^verbatim>\<open>None\<close>, booleans, integers, strings, lists and
  dictionaries with string keys. A dictionary is an association list in insertion order
  (the order matters where the code joins \<^verbatim>\<open>params.items()\<close> into a query string).
  A string is a list of code points below U+0100 (one \<^typ>\<open>char\<close> each); larger code
  points and JSON numbers with a fraction or an exponent are outside the model.
\<close>

datatype pyval =
    PyNone
  | PyBool bool
  | PyInt int
  | PyStr string
  | PyList "pyval list"
  | PyDict "(string \<times> pyval) list"

text \<open>The exceptions the code can raise; each raise is a branch returning \<open>Inl\<close>.\<close>

datatype py_error = JSONDecodeError | AttributeError | TypeError | ValueError

definition bindE :: "'e + 'a \<Rightarrow> ('a \<Rightarrow> 'e + 'b) \<Rightarrow> 'e + 'b" where
  "bindE m f = (case m of Inl e \<Rightarrow> Inl e | Inr x \<Rightarrow> f x)"

text \<open>A list comprehension whose body may raise: the first exception ends it.\<close>

fun mapE :: "('a \<Rightarrow> 'e + 'b) \<Rightarrow> 'a list \<Rightarrow> 'e + 'b list" where
  "mapE f [] = Inr []"
| "mapE f (x # xs) = bindE (f x) (\<lambda>y. bindE (mapE f xs) (\<lambda>ys. Inr (y # ys)))"

text \<open>Truth value testing (\<^verbatim>\<open>if x\<close>, \<^verbatim>\<open>not x\<close>, \<^verbatim>\<open>x and y\<close>).\<close>

fun py_truthy :: "pyval \<Rightarrow> bool" where
  "py_truthy PyNone = False"
| "py_truthy (PyBool b) = b"
| "py_truthy (PyInt i) = (i \<noteq> 0)"
| "py_truthy (PyStr s) = (s \<noteq> [])"
| "py_truthy (PyList xs) = (xs \<noteq> [])"
| "py_truthy (PyDict kvs) = (kvs \<noteq> [])"

subsection \<open>Strings\<close>

text \<open>\<^verbatim>\<open>str.isspace\<close> on one code point below U+0100.\<close>

definition py_isspace :: "char \<Rightarrow> bool" where
  "py_isspace c =
     (let n = of_char c :: nat
      in (9 \<le> n \<and> n \<le> 13) \<or> (28 \<le> n \<and> n \<le> 32) \<or> n = 133 \<or> n = 160)"

text \<open>\<^verbatim>\<open>s.strip()\<close>: whitespace removed at both ends.\<close>

definition py_strip :: "string \<Rightarrow> string" where
  "py_strip s = rev (dropWhile py_isspace (rev (dropWhile py_isspace s)))"

text \<open>
  \<^verbatim>\<open>s.lower()\<close>, one code point at a time: the upper-case letters below U+0100 are
  A to Z and U+00C0 to U+00DE without U+00D7, and each lower-case partner lies 32 higher,
  which is bit 5 set.
\<close>

fun py_lower_char :: "char \<Rightarrow> char" where
  "py_lower_char (Char b0 b1 b2 b3 b4 b5 b6 b7) =
     (let n = of_char (Char b0 b1 b2 b3 b4 b5 b6 b7) :: nat
      in if (65 \<le> n \<and> n \<le> 90) \<or> (192 \<le> n \<and> n \<le> 222 \<and> n \<noteq> 215)
         then Char b0 b1 b2 b3 b4 True b6 b7
         else Char b0 b1 b2 b3 b4 b5 b6 b7)"

definition py_lower :: "string \<Rightarrow> string" where
  "py_lower s = map py_lower_char s"

text \<open>\<^verbatim>\<open>s.replace(a, b)\<close> for one-character \<open>a\<close> and \<open>b\<close>.\<close>

definition py_replace :: "char \<Rightarrow> char \<Rightarrow> string \<Rightarrow> string" where
  "py_replace a b s = map (\<lambda>c. if c = a then b else c) s"

text \<open>\<^verbatim>\<open>sep.join(xs)\<close>.\<close>

fun py_join :: "string \<Rightarrow> string list \<Rightarrow> string" where
  "py_join sep [] = []"
| "py_join sep [x] = x"
| "py_join sep (x # y # ys) = x @ sep @ py_join sep (y # ys)"

text \<open>\<^verbatim>\<open>s.encode('utf-8')\<close> for code points below U+0100: one or two bytes each.\<close>

definition utf8_char :: "char \<Rightarrow> string" where
  "utf8_char c =
     (let n = of_char c :: nat
      in if n < 128 then [c] else [char_of (192 + n div 64), char_of (128 + n mod 64)])"

definition encode_utf8 :: "string \<Rightarrow> string" where
  "encode_utf8 s = concat (map utf8_char s)"

subsection \<open>Integers and their decimal form\<close>

definition digit_char :: "nat \<Rightarrow> char" where
  "digit_char d = char_of (48 + d)"

fun str_nat :: "nat \<Rightarrow> string" where
  "str_nat n = (if n < 10 then [digit_char n] else str_nat (n div 10) @ [digit_char (n mod 10)])"

declare str_nat.simps [simp del]

text \<open>
  \<^verbatim>\<open>str(i)\<close> of an integer. Integers are unbounded, as in Python; the interpreter's
  cap on the number of digits in a conversion between \<^verbatim>\<open>int\<close> and \<^verbatim>\<open>str\<close> is not
  modelled.
\<close>

definition py_str_int :: "int \<Rightarrow> string" where
  "py_str_int i = (if i < 0 then CHR ''-'' # str_nat (nat (- i)) else str_nat (nat i))"

definition is_digit :: "char \<Rightarrow> bool" where
  "is_digit c = (48 \<le> (of_char c :: nat) \<and> (of_char c :: nat) \<le> 57)"

definition digit_val :: "char \<Rightarrow> nat" where
  "digit_val c = of_char c - 48"

text \<open>
  The digits of an integer literal after the first one, with the value read so far:
  digits, each optionally preceded by one underscore.
\<close>

fun py_digits :: "nat \<Rightarrow> string \<Rightarrow> nat option" where
  "py_digits acc [] = Some acc"
| "py_digits acc (c # cs) =
     (if is_digit c then py_digits (10 * acc + digit_val c) cs
      else if c = CHR ''_'' then
        (case cs of
           [] \<Rightarrow> None
         | d # ds \<Rightarrow> if is_digit d then py_digits (10 * acc + digit_val d) ds else None)
      else None)"

definition py_nat_str :: "string \<Rightarrow> nat option" where
  "py_nat_str t =
     (case t of
        [] \<Rightarrow> None
      | c # cs \<Rightarrow> if is_digit c then py_digits (digit_val c) cs else None)"

text \<open>
  \<^verbatim>\<open>int(s)\<close> of a string, \<open>None\<close> where Python raises \<^verbatim>\<open>ValueError\<close>: surrounding
  whitespace is dropped, one sign is allowed, then decimal digits.
\<close>

definition py_int_str :: "string \<Rightarrow> int option" where
  "py_int_str s =
     (case py_strip s of
        [] \<Rightarrow> None
      | c # cs \<Rightarrow>
          if c = CHR ''-'' then map_option (\<lambda>n. - int n) (py_nat_str cs)
          else if c = CHR ''+'' then map_option int (py_nat_str cs)
          else map_option int (py_nat_str (c # cs)))"

text \<open>\<^verbatim>\<open>int(x)\<close>.\<close>

fun py_int :: "pyval \<Rightarrow> py_error + int" where
  "py_int (PyInt i) = Inr i"
| "py_int (PyBool b) = Inr (if b then 1 else 0)"
| "py_int (PyStr s) = (case py_int_str s of None \<Rightarrow> Inl ValueError | Some i \<Rightarrow> Inr i)"
| "py_int PyNone = Inl TypeError"
| "py_int (PyList xs) = Inl TypeError"
| "py_int (PyDict kvs) = Inl TypeError"

text \<open>\<^verbatim>\<open>i < x\<close> for an integer \<open>i\<close>: only numbers can be compared with it.\<close>

fun py_int_less :: "int \<Rightarrow> pyval \<Rightarrow> py_error + bool" where
  "py_int_less i (PyInt j) = Inr (i < j)"
| "py_int_less i (PyBool b) = Inr (i < (if b then 1 else 0))"
| "py_int_less i PyNone = Inl TypeError"
| "py_int_less i (PyStr s) = Inl TypeError"
| "py_int_less i (PyList xs) = Inl TypeError"
| "py_int_less i (PyDict kvs) = Inl TypeError"

subsection \<open>\<^verbatim>\<open>repr\<close> and \<^verbatim>\<open>str\<close>\<close>

definition hex_digit :: "nat \<Rightarrow> char" where
  "hex_digit d = (if d < 10 then char_of (48 + d) else char_of (87 + d))"

definition backslash :: char where
  "backslash = CHR 0x5C"

definition squote :: char where
  "squote = CHR 0x27"

definition dquote :: char where
  "dquote = CHR 0x22"

text \<open>One code point inside \<^verbatim>\<open>repr\<close> of a string quoted with \<open>q\<close>.\<close>

definition repr_char :: "char \<Rightarrow> char \<Rightarrow> string" where
  "repr_char q c =
     (let n = of_char c :: nat
      in if c = q \<or> c = backslash then [backslash, c]
         else if n = 9 then [backslash, CHR ''t'']
         else if n = 10 then [backslash, CHR ''n'']
         else if n = 13 then [backslash, CHR ''r'']
         else if n < 32 \<or> n = 127 \<or> (128 \<le> n \<and> n \<le> 160) \<or> n = 173
           then [backslash, CHR ''x'', hex_digit (n div 16), hex_digit (n mod 16)]
         else [c])"

definition repr_str :: "string \<Rightarrow> string" where
  "repr_str s =
     (let q = (if squote \<in> set s \<and> dquote \<notin> set s then dquote else squote)
      in q # concat (map (repr_char q) s) @ [q])"

fun py_repr :: "pyval \<Rightarrow> string" where
  "py_repr PyNone = ''None''"
| "py_repr (PyBool b) = (if b then ''True'' else ''False'')"
| "py_repr (PyInt i) = py_str_int i"
| "py_repr (PyStr s) = repr_str s"
| "py_repr (PyList xs) = ''['' @ py_join '', '' (map py_repr xs) @ '']''"
| "py_repr (PyDict kvs) =
     ''{'' @ py_join '', '' (map (\<lambda>(k, v). repr_str k @ '': '' @ py_repr v) kvs) @ ''}''"

text \<open>\<^verbatim>\<open>str(x)\<close>, which is also what an f-string and \<^verbatim>\<open>str.format\<close> insert.\<close>

definition py_str :: "pyval \<Rightarrow> string" where
  "py_str x = (case x of PyStr s \<Rightarrow> s | _ \<Rightarrow> py_repr x)"

subsection \<open>Attribute access that may fail\<close>

text \<open>\<^verbatim>\<open>d.get(k, default)\<close> on a dictionary.\<close>

definition dict_get :: "(string \<times> 'v) list \<Rightarrow> string \<Rightarrow> 'v \<Rightarrow> 'v" where
  "dict_get kvs k d = (case map_of kvs k of None \<Rightarrow> d | Some v \<Rightarrow> v)"

text \<open>\<^verbatim>\<open>x.get(k, d)\<close> on any value: only a dictionary has \<^verbatim>\<open>get\<close>.\<close>

definition py_get :: "pyval \<Rightarrow> string \<Rightarrow> pyval \<Rightarrow> py_error + pyval" where
  "py_get x k d =
     (case x of
        PyDict kvs \<Rightarrow> Inr (dict_get kvs k d)
      | _ \<Rightarrow> Inl AttributeError)"

text \<open>\<^verbatim>\<open>x.strip()\<close>: only a string has \<^verbatim>\<open>strip\<close>.\<close>

definition py_strip_val :: "pyval \<Rightarrow> py_error + string" where
  "py_strip_val x = (case x of PyStr s \<Rightarrow> Inr (py_strip s) | _ \<Rightarrow> Inl AttributeError)"

text \<open>
  \<^verbatim>\<open>for y in x\<close>: a list gives its elements, a string its characters, a dictionary its
  keys; nothing else can be iterated.
\<close>

definition py_iter :: "pyval \<Rightarrow> py_error + pyval list" where
  "py_iter x =
     (case x of
        PyList xs \<Rightarrow> Inr xs
      | PyStr s \<Rightarrow> Inr (map (\<lambda>c. PyStr [c]) s)
      | PyDict kvs \<Rightarrow> Inr (map (\<lambda>kv. PyStr (fst kv)) kvs)
      | _ \<Rightarrow> Inl TypeError)"

section \<open>The spider\<close>

subsection \<open>Requests, responses, items\<close>

type_synonym params = "(string \<times> pyval) list"

text \<open>
  A request as the spider builds it: URL, headers and the entry \<^verbatim>\<open>params_template\<close>
  of its \<^verbatim>\<open>meta\<close> (\<open>None\<close> when \<^verbatim>\<open>meta\<close> has no such key). The callback is always
  \<^verbatim>\<open>self.parse\<close>.
\<close>

record request =
  request_url :: string
  request_headers :: "(string \<times> string) list"
  params_template :: "params option"

text \<open>A response: its URL, its body and the request it answers.\<close>

record response =
  response_url :: string
  response_text :: string
  request :: request

text \<open>
  Modelled from the spec: \<^verbatim>\<open>ProposicaoItem\<close> is declared in \<^verbatim>\<open>items.py\<close>, which is
  not part of the sources at hand; it is taken to declare every field the spider assigns
  (the fields of the spec's OutputRecord), so that no assignment fails.
\<close>

record item =
  house :: string
  title :: string
  type :: string
  number :: pyval
  year :: pyval
  author :: "string list"
  subject :: string
  scraped_at :: string
  meta :: "(string \<times> pyval) list"
  url :: string
  uuid :: string
  file_urls :: "string list"
  md_files :: string

text \<open>
  What the spider takes from libraries and from its surroundings: \<^verbatim>\<open>json.loads\<close>
  (\<open>None\<close> where it raises \<^verbatim>\<open>JSONDecodeError\<close>), \<^verbatim>\<open>urllib\<close>'s \<^verbatim>\<open>urljoin\<close> behind
  \<^verbatim>\<open>response.urljoin\<close>, the hex digest of \<^verbatim>\<open>hashlib.md5\<close> over a byte string, and the
  clock: \<open>now_isoformat n\<close> is \<^verbatim>\<open>datetime.now().isoformat()\<close> as read while the record
  counted as number \<open>n\<close> is turned into an item.
\<close>

record lib =
  json_loads :: "string \<Rightarrow> pyval option"
  urljoin :: "string \<Rightarrow> string \<Rightarrow> string"
  md5_hexdigest :: "string \<Rightarrow> string"
  now_isoformat :: "int \<Rightarrow> string"

text \<open>The instance attributes set by \<^verbatim>\<open>__init__\<close>.\<close>

record spider =
  data_inicio :: pyval
  data_fim :: pyval
  total_items_limit :: "int option"
  items_processed_count :: int

text \<open>What a callback yields: an item, a request, or \<^verbatim>\<open>None\<close>.\<close>

datatype yielded = Item item | Request request | NoOutput

subsection \<open>Class attributes\<close>

definition house_name :: string where
  "house_name = ''C'' @ [CHR 0xE2] @ ''mara Municipal de S'' @ [CHR 0xE3] @ ''o Paulo''"

definition uf :: string where
  "uf = ''SP''"

definition slug :: string where
  "slug = ''sp-sao-paulo''"

definition ajax_url :: string where
  "ajax_url = ''https://splegisconsulta.saopaulo.sp.leg.br/Pesquisa/PageDataProjeto''"

definition items_per_page_ajax :: int where
  "items_per_page_ajax = 100"

subsection \<open>\<^verbatim>\<open>__init__\<close>\<close>

text \<open>
  \<^verbatim>\<open>self.total_items_limit = int(limit) if limit else None\<close>; the counter starts at 0.
  The two log lines have no effect on the crawl and are left out, here and below.
\<close>

definition init :: "pyval \<Rightarrow> pyval \<Rightarrow> pyval \<Rightarrow> py_error + spider" where
  "init data_inicio' data_fim' limit =
     bindE (if py_truthy limit then bindE (py_int limit) (\<lambda>i. Inr (Some i)) else Inr None)
       (\<lambda>l. Inr \<lparr>data_inicio = data_inicio', data_fim = data_fim',
                 total_items_limit = l, items_processed_count = 0\<rparr>)"

subsection \<open>\<^verbatim>\<open>start_requests\<close>\<close>

definition query_string :: "params \<Rightarrow> string" where
  "query_string ps = py_join ''&'' (map (\<lambda>(k, v). k @ ''='' @ py_str v) ps)"

definition start_requests :: "spider \<Rightarrow> request" where
  "start_requests s =
     (let params0 =
            [(''draw'', PyStr ''1''), (''start'', PyStr ''0''),
             (''length'', PyStr (py_str_int items_per_page_ajax)),
             (''tipo'', PyStr ''1''), (''somenteEmTramitacao'', PyStr ''false''),
             (''order[0][column]'', PyStr ''1''), (''order[0][dir]'', PyStr ''desc''),
             (''search[value]'', PyStr []), (''search[regex]'', PyStr ''false'')];
          params1 = (if py_truthy (data_inicio s)
                     then AList.update ''autuacaoI'' (data_inicio s) params0 else params0);
          params2 = (if py_truthy (data_fim s)
                     then AList.update ''autuacaoF'' (data_fim s) params1 else params1);
          headers =
            [(''X-Requested-With'', ''XMLHttpRequest''),
             (''Referer'', ''https://splegisconsulta.saopaulo.sp.leg.br/Pesquisa/IndexProjeto'')]
      in \<lparr>request_url = ajax_url @ ''?'' @ query_string params2,
          request_headers = headers,
          params_template = Some params2\<rparr>)"

subsection \<open>\<^verbatim>\<open>create_item_from_ajax\<close>\<close>

definition normalized_type :: "string \<Rightarrow> string" where
  "normalized_type t =
     (if t \<noteq> [] then py_replace CHR '' '' CHR ''-'' (py_lower t) else ''unknown'')"

definition pdf_link_template :: "pyval \<Rightarrow> pyval \<Rightarrow> string" where
  "pdf_link_template natodigital codigo =
     (if py_truthy natodigital
      then ''/ArquivoProcesso/GerarArquivoProcessoPorID/'' @ py_str codigo @ ''?referidas=true''
      else ''/ArquivoProcesso/GerarArquivoProcessoPorID/'' @ py_str codigo @ ''?filtroAnexo=1'')"

text \<open>
  \<open>Inr None\<close> is the \<^verbatim>\<open>return None\<close> of a record without a process code; \<open>Inl\<close> is an
  exception, raised in the order of the assignments.
\<close>

definition create_item_from_ajax ::
  "lib \<Rightarrow> spider \<Rightarrow> pyval \<Rightarrow> response \<Rightarrow> py_error + item option" where
  "create_item_from_ajax L s ajax_data resp =
     bindE (py_get ajax_data ''codigo'' PyNone) (\<lambda>codigo_processo.
     if \<not> py_truthy codigo_processo then Inr None
     else
       bindE (bindE (py_get ajax_data ''texto'' (PyStr [])) py_strip_val) (\<lambda>title'.
       bindE (bindE (py_get ajax_data ''sigla'' (PyStr [])) py_strip_val) (\<lambda>type'.
       bindE (py_get ajax_data ''numero'' PyNone) (\<lambda>number'.
       bindE (py_get ajax_data ''ano'' PyNone) (\<lambda>year'.
       bindE (bindE (bindE (py_get ajax_data ''promoventes'' (PyList [])) py_iter)
                (mapE (\<lambda>p. bindE (py_get p ''texto'' (PyStr [])) py_strip_val))) (\<lambda>author'.
       bindE (bindE (py_get ajax_data ''ementa'' (PyStr [])) py_strip_val) (\<lambda>subject'.
       bindE (py_get ajax_data ''natodigital'' PyNone) (\<lambda>natodigital.
       let url' = urljoin L (response_url resp) (pdf_link_template natodigital codigo_processo)
       in Inr (Some
            \<lparr>house = house_name,
             title = title',
             type = type',
             number = number',
             year = year',
             author = author',
             subject = subject',
             scraped_at = now_isoformat L (items_processed_count s),
             meta = [(''source_json_codigo'', codigo_processo)],
             url = url',
             uuid = md5_hexdigest L (encode_utf8 (py_str codigo_processo)),
             file_urls = [url'],
             md_files = uf @ ''/'' @ slug @ ''/'' @ normalized_type type' @ ''-''
                        @ py_str number' @ ''-'' @ py_str year' @ ''.md''\<rparr>)))))))))"

subsection \<open>\<^verbatim>\<open>get_next_page_request\<close>\<close>

text \<open>\<open>Inr None\<close> is the implicit \<^verbatim>\<open>return None\<close> when there is no further page.\<close>

definition get_next_page_request :: "response \<Rightarrow> pyval \<Rightarrow> py_error + request option" where
  "get_next_page_request resp data_json =
     bindE (py_get data_json ''recordsFiltered'' (PyInt 0)) (\<lambda>records_filtered.
     bindE (py_int (dict_get (case params_template (request resp) of None \<Rightarrow> [] | Some p \<Rightarrow> p)
                      ''start'' (PyInt 0)))
       (\<lambda>current_start_offset.
     let next_page_start_offset = current_start_offset + items_per_page_ajax
     in bindE (py_int_less next_page_start_offset records_filtered) (\<lambda>more.
        if more then
          (case params_template (request resp) of
             None \<Rightarrow> Inl AttributeError
           | Some params_template' \<Rightarrow>
               bindE (py_int (dict_get params_template' ''draw'' (PyInt 1))) (\<lambda>draw.
               let next_params0 =
                     AList.update ''draw'' (PyStr (py_str_int (draw + 1))) params_template';
                   next_params =
                     AList.update ''start'' (PyStr (py_str_int next_page_start_offset)) next_params0
               in Inr (Some
                    \<lparr>request_url = ajax_url @ ''?'' @ query_string next_params,
                     request_headers = request_headers (request resp),
                     params_template = Some next_params\<rparr>)))
        else Inr None)))"

subsection \<open>\<^verbatim>\<open>parse\<close>\<close>

text \<open>
  \<^verbatim>\<open>self.total_items_limit and self.items_processed_count >= self.total_items_limit\<close>:
  a limit of 0 is falsy, as \<^verbatim>\<open>None\<close> is.
\<close>

definition limit_reached :: "spider \<Rightarrow> bool" where
  "limit_reached s =
     (case total_items_limit s of
        None \<Rightarrow> False
      | Some l \<Rightarrow> l \<noteq> 0 \<and> items_processed_count s \<ge> l)"

text \<open>
  \<^verbatim>\<open>not self.total_items_limit or self.items_processed_count < self.total_items_limit\<close>.
\<close>

definition may_continue :: "spider \<Rightarrow> bool" where
  "may_continue s =
     (case total_items_limit s of
        None \<Rightarrow> True
      | Some l \<Rightarrow> l = 0 \<or> items_processed_count s < l)"

text \<open>How the \<^verbatim>\<open>for\<close> loop ends: the array is exhausted, \<^verbatim>\<open>return\<close>, or an exception.\<close>

datatype loop_exit = Exhausted | Returned | Raised py_error

text \<open>
  The loop over \<^verbatim>\<open>proposicoes_ajax\<close>: what it yields, how it ends, and the spider
  afterwards. The counter is incremented before the item is built.
\<close>

fun parse_loop ::
  "lib \<Rightarrow> response \<Rightarrow> spider \<Rightarrow> pyval list \<Rightarrow> yielded list \<times> loop_exit \<times> spider" where
  "parse_loop L resp s [] = ([], Exhausted, s)"
| "parse_loop L resp s (ajax_data # rest) =
     (if limit_reached s then ([], Returned, s)
      else
        let s1 = s\<lparr>items_processed_count := items_processed_count s + 1\<rparr>
        in case create_item_from_ajax L s1 ajax_data resp of
             Inl e \<Rightarrow> ([], Raised e, s1)
           | Inr None \<Rightarrow> parse_loop L resp s1 rest
           | Inr (Some it) \<Rightarrow>
               (case parse_loop L resp s1 rest of
                  (ys, ex, s2) \<Rightarrow> (Item it # ys, ex, s2)))"

text \<open>
  A run of the generator \<^verbatim>\<open>parse\<close>: everything it yields in order, the exception that
  ends it (if any), and the spider afterwards. What was yielded before an exception
  has been handed over already.
\<close>

record parse_result =
  yields :: "yielded list"
  raised :: "py_error option"
  spider_after :: spider

definition parse :: "lib \<Rightarrow> spider \<Rightarrow> response \<Rightarrow> parse_result" where
  "parse L s resp =
     (case json_loads L (response_text resp) of
        None \<Rightarrow> \<lparr>yields = [], raised = Some JSONDecodeError, spider_after = s\<rparr>
      | Some data_json \<Rightarrow>
          (case bindE (py_get data_json ''data'' (PyList [])) py_iter of
             Inl e \<Rightarrow> \<lparr>yields = [], raised = Some e, spider_after = s\<rparr>
           | Inr proposicoes_ajax \<Rightarrow>
               (case parse_loop L resp s proposicoes_ajax of
                  (ys, Raised e, s') \<Rightarrow> \<lparr>yields = ys, raised = Some e, spider_after = s'\<rparr>
                | (ys, Returned, s') \<Rightarrow> \<lparr>yields = ys, raised = None, spider_after = s'\<rparr>
                | (ys, Exhausted, s') \<Rightarrow>
                    if may_continue s' then
                      (case get_next_page_request resp data_json of
                         Inl e \<Rightarrow> \<lparr>yields = ys, raised = Some e, spider_after = s'\<rparr>
                       | Inr None \<Rightarrow>
                           \<lparr>yields = ys @ [NoOutput], raised = None, spider_after = s'\<rparr>
                       | Inr (Some rq) \<Rightarrow>
                           \<lparr>yields = ys @ [Request rq], raised = None, spider_after = s'\<rparr>)
                    else \<lparr>yields = ys, raised = None, spider_after = s'\<rparr>)))"

definition items_of :: "yielded list \<Rightarrow> item list" where
  "items_of ys = concat (map (\<lambda>y. case y of Item it \<Rightarrow> [it] | _ \<Rightarrow> []) ys)"

definition requests_of :: "yielded list \<Rightarrow> request list" where
  "requests_of ys = concat (map (\<lambda>y. case y of Request rq \<Rightarrow> [rq] | _ \<Rightarrow> []) ys)"

subsection \<open>The walk\<close>

text \<open>
  The crawl as the engine drives it: a request is fetched, the response goes to
  \<^verbatim>\<open>parse\<close>, items go to the pipeline and a yielded request is fetched next. The server
  maps a request to the body of its response; a fetch succeeds and is not redirected.
  The walk may go on for ever (the server decides), so it runs on fuel: \<open>None\<close> means the
  fuel ran out before the walk ended.
\<close>

definition fetch :: "(request \<Rightarrow> string) \<Rightarrow> request \<Rightarrow> response" where
  "fetch server rq = \<lparr>response_url = request_url rq, response_text = server rq, request = rq\<rparr>"

record crawl =
  requests :: "request list"
  items :: "item list"
  failure :: "py_error option"
  processed :: int

fun walk :: "nat \<Rightarrow> lib \<Rightarrow> (request \<Rightarrow> string) \<Rightarrow> spider \<Rightarrow> request \<Rightarrow> crawl option" where
  "walk 0 L server s rq = None"
| "walk (Suc fuel) L server s rq =
     (let r = parse L s (fetch server rq)
      in case requests_of (yields r) of
           [] \<Rightarrow> Some \<lparr>requests = [rq], items = items_of (yields r), failure = raised r,
                      processed = items_processed_count (spider_after r)\<rparr>
         | rq' # _ \<Rightarrow>
             map_option
               (\<lambda>c. c\<lparr>requests := rq # requests c, items := items_of (yields r) @ items c\<rparr>)
               (walk fuel L server (spider_after r) rq'))"

definition crawl :: "nat \<Rightarrow> lib \<Rightarrow> (request \<Rightarrow> string) \<Rightarrow> spider \<Rightarrow> crawl option" where
  "crawl fuel L server s = walk fuel L server s (start_requests s)"

subsection \<open>Raw records\<close>

text \<open>
  The records \<^verbatim>\<open>create_item_from_ajax\<close> accepts without raising: a dictionary that
  either has no process code (it is skipped, nothing else is looked at) or whose
  \<^verbatim>\<open>texto\<close>, \<^verbatim>\<open>sigla\<close> and \<^verbatim>\<open>ementa\<close> are strings where present and whose
  \<^verbatim>\<open>promoventes\<close> can be iterated and holds dictionaries with a string \<^verbatim>\<open>texto\<close>.
  The fields \<^verbatim>\<open>numero\<close>, \<^verbatim>\<open>ano\<close> and \<^verbatim>\<open>natodigital\<close> are not constrained.
\<close>

definition text_field_ok :: "(string \<times> pyval) list \<Rightarrow> string \<Rightarrow> bool" where
  "text_field_ok kvs k = (case dict_get kvs k (PyStr []) of PyStr t \<Rightarrow> True | _ \<Rightarrow> False)"

definition promovente_ok :: "pyval \<Rightarrow> bool" where
  "promovente_ok p = (case p of PyDict pk \<Rightarrow> text_field_ok pk ''texto'' | _ \<Rightarrow> False)"

definition promoventes_ok :: "(string \<times> pyval) list \<Rightarrow> bool" where
  "promoventes_ok kvs =
     (case py_iter (dict_get kvs ''promoventes'' (PyList [])) of
        Inl e \<Rightarrow> False
      | Inr ps \<Rightarrow> list_all promovente_ok ps)"

definition has_code :: "pyval \<Rightarrow> bool" where
  "has_code x = (case x of PyDict kvs \<Rightarrow> py_truthy (dict_get kvs ''codigo'' PyNone) | _ \<Rightarrow> False)"

definition well_formed_record :: "pyval \<Rightarrow> bool" where
  "well_formed_record x =
     (case x of
        PyDict kvs \<Rightarrow>
          (if py_truthy (dict_get kvs ''codigo'' PyNone)
           then text_field_ok kvs ''texto'' \<and> text_field_ok kvs ''sigla''
                \<and> promoventes_ok kvs \<and> text_field_ok kvs ''ementa''
           else True)
      | _ \<Rightarrow> False)"

text \<open>A valid raw record: one that becomes an item.\<close>

definition valid_record :: "pyval \<Rightarrow> bool" where
  "valid_record x = (well_formed_record x \<and> has_code x)"

subsection \<open>Pages\<close>

text \<open>
  A well-formed page: an object whose \<^verbatim>\<open>data\<close>, where present, is an array of
  well-formed records. \<open>records_of\<close> is that array, \<open>filtered_total\<close> what the
  page reports as \<^verbatim>\<open>recordsFiltered\<close> (0 when absent).
\<close>

definition records_of :: "pyval \<Rightarrow> pyval list" where
  "records_of data_json =
     (case data_json of
        PyDict page \<Rightarrow> (case dict_get page ''data'' (PyList []) of PyList xs \<Rightarrow> xs | _ \<Rightarrow> [])
      | _ \<Rightarrow> [])"

definition well_formed_page :: "pyval \<Rightarrow> bool" where
  "well_formed_page data_json =
     (case data_json of
        PyDict page \<Rightarrow>
          (case dict_get page ''data'' (PyList []) of
             PyList xs \<Rightarrow> list_all well_formed_record xs
           | _ \<Rightarrow> False)
      | _ \<Rightarrow> False)"

definition filtered_total :: "pyval \<Rightarrow> pyval" where
  "filtered_total data_json =
     (case data_json of
        PyDict page \<Rightarrow> dict_get page ''recordsFiltered'' (PyInt 0)
      | _ \<Rightarrow> PyNone)"

text \<open>The limit leaves room for \<open>n\<close> more records: no limit, or at least \<open>n\<close> to go.\<close>

definition limit_allows :: "spider \<Rightarrow> nat \<Rightarrow> bool" where
  "limit_allows s n =
     (case total_items_limit s of
        None \<Rightarrow> True
      | Some l \<Rightarrow> l = 0 \<or> items_processed_count s + int n \<le> l)"

section \<open>A test bench\<close>

text \<open>
  Concrete stand-ins for the library functions, for running the spider on examples.
  \<open>bench_urljoin\<close> resolves a reference that starts with one slash and has no dot
  segments: scheme and authority of the base, then the reference. The digests are those
  of MD5 for the three inputs listed. The body \<^verbatim>\<open>page\<close> decodes to the given value,
  no other body is JSON.
\<close>

fun url_origin :: "string \<Rightarrow> string" where
  "url_origin (a # b # c # rest) =
     (if [a, b, c] = ''://'' then ''://'' @ takeWhile (\<lambda>x. x \<notin> set ''/?#'') rest
      else a # url_origin (b # c # rest))"
| "url_origin s = s"

definition bench_urljoin :: "string \<Rightarrow> string \<Rightarrow> string" where
  "bench_urljoin base ref = url_origin base @ ref"

definition bench_md5 :: "string \<Rightarrow> string" where
  "bench_md5 bs =
     (if bs = ''X1'' then ''bb7f5ae6220c9828e5ec91faf054197c''
      else if bs = ''X2'' then ''54105bddbfe3f639d49cbe8f5182c958''
      else if bs = ''123'' then ''202cb962ac59075b964b07152d234b70''
      else [])"

definition bench_lib :: "pyval \<Rightarrow> lib" where
  "bench_lib page =
     \<lparr>json_loads = (\<lambda>t. if t = ''page'' then Some page else None),
      urljoin = bench_urljoin,
      md5_hexdigest = bench_md5,
      now_isoformat = (\<lambda>n. ''2024-01-01T00:00:00'')\<rparr>"

definition bench_server :: "request \<Rightarrow> string" where
  "bench_server rq = ''page''"

definition bench_spider :: "int option \<Rightarrow> spider" where
  "bench_spider l =
     \<lparr>data_inicio = PyNone, data_fim = PyNone, total_items_limit = l,
      items_processed_count = 0\<rparr>"

definition bench_response :: response where
  "bench_response = fetch bench_server (start_requests (bench_spider None))"

section \<open>Basic facts\<close>

lemma bindE_Inl [simp]: "bindE (Inl e) f = Inl e"
  by (simp add: bindE_def)

lemma bindE_Inr [simp]: "bindE (Inr x) f = f x"
  by (simp add: bindE_def)

text \<open>The item built from a record does not depend on the limit.\<close>

lemma create_item_limit_irrelevant [simp]:
  "create_item_from_ajax L (s\<lparr>total_items_limit := l\<rparr>) x resp = create_item_from_ajax L s x resp"
  by (simp add: create_item_from_ajax_def cong: if_cong)

text \<open>The loop never changes the limit.\<close>

lemma parse_loop_limit:
  "parse_loop L resp s xs = (ys, ex, s') \<Longrightarrow> total_items_limit s' = total_items_limit s"
proof (induction xs arbitrary: s ys ex s')
  case Nil
  then show ?case by simp
next
  case (Cons x xs)
  then show ?case
    by (fastforce simp: Let_def split: if_splits sum.splits option.splits prod.splits)
qed

lemma parse_limit [simp]:
  "total_items_limit (spider_after (parse L s resp)) = total_items_limit s"
  by (auto simp: parse_def dest: parse_loop_limit
      split: option.splits sum.splits prod.splits loop_exit.splits)

section \<open>A limit of 0\<close>

lemma parse_loop_unset:
  assumes "l = None \<or> l = Some 0"
  shows "parse_loop L resp (s\<lparr>total_items_limit := l\<rparr>) xs =
     (case parse_loop L resp (s\<lparr>total_items_limit := None\<rparr>) xs of
        (ys, ex, s') \<Rightarrow> (ys, ex, s'\<lparr>total_items_limit := l\<rparr>))"
  using assms
proof (induction xs arbitrary: s)
  case Nil
  then show ?case by simp
next
  case (Cons x xs)
  have nr: "\<not> limit_reached (s\<lparr>total_items_limit := l\<rparr>)"
    "\<not> limit_reached (s\<lparr>total_items_limit := None\<rparr>)"
    using Cons.prems by (auto simp: limit_reached_def)
  have upd: "\<And>l'. s\<lparr>total_items_limit := l', items_processed_count := items_processed_count s + 1\<rparr>
     = (s\<lparr>items_processed_count := items_processed_count s + 1\<rparr>)\<lparr>total_items_limit := l'\<rparr>"
    by simp
  show ?case
    using nr Cons.IH[OF Cons.prems, of "s\<lparr>items_processed_count := items_processed_count s + 1\<rparr>"]
    by (simp add: Let_def upd split: sum.splits option.splits prod.splits)
qed

lemma parse_unset:
  assumes "l = None \<or> l = Some 0"
  shows "parse L (s\<lparr>total_items_limit := l\<rparr>) resp =
     (parse L (s\<lparr>total_items_limit := None\<rparr>) resp)
       \<lparr>spider_after := (spider_after (parse L (s\<lparr>total_items_limit := None\<rparr>) resp))
                          \<lparr>total_items_limit := l\<rparr>\<rparr>"
proof (cases "json_loads L (response_text resp)")
  case None
  then show ?thesis by (simp add: parse_def)
next
  case (Some data_json)
  show ?thesis
  proof (cases "bindE (py_get data_json ''data'' (PyList [])) py_iter")
    case (Inl e)
    with Some show ?thesis by (simp add: parse_def)
  next
    case (Inr xs)
    obtain ys ex s' where pl: "parse_loop L resp (s\<lparr>total_items_limit := None\<rparr>) xs = (ys, ex, s')"
      by (cases "parse_loop L resp (s\<lparr>total_items_limit := None\<rparr>) xs") auto
    have "total_items_limit s' = None"
      using parse_loop_limit[OF pl] by simp
    then have mc: "may_continue s'" "may_continue (s'\<lparr>total_items_limit := l\<rparr>)"
      using assms by (auto simp: may_continue_def)
    show ?thesis
      using Some Inr pl mc
      by (cases ex)
         (simp_all add: parse_def parse_loop_unset[OF assms] split: sum.splits option.splits)
  qed
qed

lemma walk_unset:
  assumes "l = None \<or> l = Some 0"
  shows "walk fuel L server (s\<lparr>total_items_limit := l\<rparr>) rq =
         walk fuel L server (s\<lparr>total_items_limit := None\<rparr>) rq"
proof (induction fuel arbitrary: s rq)
  case 0
  show ?case by simp
next
  case (Suc fuel)
  let ?r0 = "parse L (s\<lparr>total_items_limit := None\<rparr>) (fetch server rq)"
  have r: "parse L (s\<lparr>total_items_limit := l\<rparr>) (fetch server rq) =
      ?r0\<lparr>spider_after := (spider_after ?r0)\<lparr>total_items_limit := l\<rparr>\<rparr>"
    by (rule parse_unset[OF assms])
  have "total_items_limit (spider_after ?r0) = None"
    by simp
  then have s0: "(spider_after ?r0)\<lparr>total_items_limit := None\<rparr> = spider_after ?r0"
    by simp
  have ih: "\<And>rq'. walk fuel L server ((spider_after ?r0)\<lparr>total_items_limit := l\<rparr>) rq' =
      walk fuel L server (spider_after ?r0) rq'"
    using Suc.IH[of "spider_after ?r0"] s0 by simp
  show ?case
    by (simp add: r ih Let_def split: list.splits)
qed

lemma start_requests_limit [simp]:
  "start_requests (s\<lparr>total_items_limit := l\<rparr>) = start_requests s"
  by (simp add: start_requests_def cong: if_cong)

text \<open>
  Claim C9. A record limit of 0 behaves as no limit at all. Passed as the integer 0 it is
  stored as \<^verbatim>\<open>None\<close>; passed as the string \<^verbatim>\<open>'0'\<close> (the command line) it is stored as 0,
  and a stored 0 is treated as unset by both limit checks: the check before each record
  never fires, the check before pagination always lets it go on, so a page is parsed
  with the same yields, the same outcome and the same count as without a limit, and the
  whole crawl issues the same requests and hands over the same items.
\<close>

theorem limit_zero_is_no_limit:
  "init di df (PyInt 0) = init di df PyNone
   \<and> init di df PyNone =
       Inr \<lparr>data_inicio = di, data_fim = df, total_items_limit = None,
            items_processed_count = 0\<rparr>
   \<and> init di df (PyStr ''0'') =
       Inr \<lparr>data_inicio = di, data_fim = df, total_items_limit = Some 0,
            items_processed_count = 0\<rparr>
   \<and> limit_reached (s\<lparr>total_items_limit := Some 0\<rparr>) = False
   \<and> limit_reached (s\<lparr>total_items_limit := None\<rparr>) = False
   \<and> may_continue (s\<lparr>total_items_limit := Some 0\<rparr>) = True
   \<and> may_continue (s\<lparr>total_items_limit := None\<rparr>) = True
   \<and> yields (parse L (s\<lparr>total_items_limit := Some 0\<rparr>) resp) =
       yields (parse L (s\<lparr>total_items_limit := None\<rparr>) resp)
   \<and> raised (parse L (s\<lparr>total_items_limit := Some 0\<rparr>) resp) =
       raised (parse L (s\<lparr>total_items_limit := None\<rparr>) resp)
   \<and> items_processed_count (spider_after (parse L (s\<lparr>total_items_limit := Some 0\<rparr>) resp)) =
       items_processed_count (spider_after (parse L (s\<lparr>total_items_limit := None\<rparr>) resp))
   \<and> crawl fuel L server (s\<lparr>total_items_limit := Some 0\<rparr>) =
       crawl fuel L server (s\<lparr>total_items_limit := None\<rparr>)"
proof -
  have i: "py_int_str ''0'' = Some 0"
    by (simp add: py_int_str_def py_strip_def py_isspace_def py_nat_str_def is_digit_def
        digit_val_def)
  have p: "parse L (s\<lparr>total_items_limit := Some 0\<rparr>) resp =
     (parse L (s\<lparr>total_items_limit := None\<rparr>) resp)
       \<lparr>spider_after := (spider_after (parse L (s\<lparr>total_items_limit := None\<rparr>) resp))
                          \<lparr>total_items_limit := Some 0\<rparr>\<rparr>"
    by (rule parse_unset) simp
  have w: "crawl fuel L server (s\<lparr>total_items_limit := Some 0\<rparr>) =
       crawl fuel L server (s\<lparr>total_items_limit := None\<rparr>)"
    unfolding crawl_def start_requests_limit by (rule walk_unset) simp
  show ?thesis
    by (simp add: init_def i p w limit_reached_def may_continue_def)
qed

section \<open>Decimal numerals\<close>

lemma of_char_digit_char: "d < 10 \<Longrightarrow> of_char (digit_char d) = 48 + d"
  by (simp add: digit_char_def)

lemma is_digit_digit_char [simp]: "d < 10 \<Longrightarrow> is_digit (digit_char d)"
  by (simp add: is_digit_def of_char_digit_char)

lemma digit_val_digit_char [simp]: "d < 10 \<Longrightarrow> digit_val (digit_char d) = d"
  by (simp add: digit_val_def of_char_digit_char)

lemma py_digits_all_digits:
  "\<forall>c\<in>set cs. is_digit c \<Longrightarrow>
   py_digits acc cs = Some (foldl (\<lambda>a c. 10 * a + digit_val c) acc cs)"
  by (induction cs arbitrary: acc) simp_all

lemma str_nat_digits: "\<forall>c\<in>set (str_nat n). is_digit c"
proof (induction n rule: str_nat.induct)
  case (1 n)
  then show ?case
    by (subst str_nat.simps) auto
qed

lemma str_nat_nonempty [simp]: "str_nat n \<noteq> []"
  by (subst str_nat.simps) simp

lemma str_nat_value: "foldl (\<lambda>a c. 10 * a + digit_val c) 0 (str_nat n) = n"
proof (induction n rule: str_nat.induct)
  case (1 n)
  show ?case
  proof (cases "n < 10")
    case True
    then show ?thesis by (subst str_nat.simps) simp
  next
    case False
    with 1 show ?thesis by (subst str_nat.simps) simp
  qed
qed

lemma py_nat_str_all_digits:
  assumes "cs \<noteq> []" "\<forall>c\<in>set cs. is_digit c"
  shows "py_nat_str cs = Some (foldl (\<lambda>a c. 10 * a + digit_val c) 0 cs)"
  using assms by (cases cs) (simp_all add: py_nat_str_def py_digits_all_digits)

lemma py_nat_str_str_nat [simp]: "py_nat_str (str_nat n) = Some n"
  by (simp add: py_nat_str_all_digits str_nat_digits str_nat_value)

lemma digit_not_space: "is_digit c \<Longrightarrow> \<not> py_isspace c"
  by (auto simp: is_digit_def py_isspace_def Let_def)

lemma digit_not_sign: "is_digit c \<Longrightarrow> c \<noteq> CHR ''-'' \<and> c \<noteq> CHR ''+''"
  by (auto simp: is_digit_def)

lemma py_strip_id:
  assumes "s \<noteq> []" "\<not> py_isspace (hd s)" "\<not> py_isspace (last s)"
  shows "py_strip s = s"
proof -
  have 1: "dropWhile py_isspace s = s"
    using assms by (simp add: dropWhile_eq_self_iff)
  have 2: "dropWhile py_isspace (rev s) = rev s"
    using assms by (simp add: dropWhile_eq_self_iff hd_rev)
  show ?thesis by (simp add: py_strip_def 1 2)
qed

lemma str_nat_hd_last: "is_digit (hd (str_nat n))" "is_digit (last (str_nat n))"
  using str_nat_digits[of n] str_nat_nonempty[of n] by simp_all

lemma py_strip_str_nat [simp]: "py_strip (str_nat n) = str_nat n"
  by (simp add: py_strip_id digit_not_space str_nat_hd_last)

lemma py_strip_minus_str_nat [simp]: "py_strip (CHR ''-'' # str_nat n) = CHR ''-'' # str_nat n"
  by (rule py_strip_id) (simp_all add: digit_not_space str_nat_hd_last, simp add: py_isspace_def)

text \<open>Reading back what \<^verbatim>\<open>str\<close> wrote: \<^verbatim>\<open>int(str(i)) == i\<close>.\<close>

lemma py_int_str_py_str_int [simp]: "py_int_str (py_str_int i) = Some i"
proof (cases "i < 0")
  case True
  then show ?thesis by (simp add: py_int_str_def py_str_int_def)
next
  case False
  obtain c cs where s: "str_nat (nat i) = c # cs"
    using str_nat_nonempty[of "nat i"] by (cases "str_nat (nat i)") auto
  have "is_digit c" using str_nat_hd_last(1)[of "nat i"] s by simp
  then have ns: "c \<noteq> CHR ''-''" "c \<noteq> CHR ''+''" using digit_not_sign by auto
  have "py_nat_str (c # cs) = Some (nat i)" using py_nat_str_str_nat[of "nat i"] s by simp
  moreover have "py_strip (c # cs) = c # cs" using py_strip_str_nat[of "nat i"] s by simp
  ultimately show ?thesis using False ns s
    by (simp add: py_int_str_def py_str_int_def)
qed

lemma py_str_int_inj: "py_str_int i = py_str_int j \<Longrightarrow> i = j"
  by (metis py_int_str_py_str_int option.inject)

lemma digit_char_eval:
  "digit_char 0 = CHR ''0''" "digit_char 1 = CHR ''1''" "digit_char 2 = CHR ''2''"
  "digit_char 3 = CHR ''3''" "digit_char 4 = CHR ''4''" "digit_char 5 = CHR ''5''"
  "digit_char 6 = CHR ''6''" "digit_char 7 = CHR ''7''" "digit_char 8 = CHR ''8''"
  "digit_char 9 = CHR ''9''" "digit_char (Suc 0) = CHR ''1''"
  by code_simp+

section \<open>UTF-8\<close>

lemma utf8_lead: "(n::nat) < 256 \<Longrightarrow> (192 + n div 64) mod 256 = 192 + n div 64"
proof -
  assume "n < 256"
  then have "n div 64 < 4" by (simp add: div_less_iff_less_mult)
  then have "192 + n div 64 < 256" by linarith
  then show ?thesis by simp
qed

lemma utf8_cont: "(128 + (n::nat) mod 64) mod 256 = 128 + n mod 64"
proof -
  have "n mod 64 < 64" by simp
  then have "128 + n mod 64 < 256" by linarith
  then show ?thesis by simp
qed

lemma utf8_char_inj:
  assumes "utf8_char a @ r = utf8_char b @ t"
  shows "a = b \<and> r = t"
proof -
  let ?na = "of_char a :: nat" and ?nb = "of_char b :: nat"
  have la: "?na < 256" and lb: "?nb < 256" by simp_all
  consider (small) "?na < 128" "?nb < 128" | (sb) "?na < 128" "\<not> ?nb < 128"
    | (bs) "\<not> ?na < 128" "?nb < 128" | (big) "\<not> ?na < 128" "\<not> ?nb < 128"
    by blast
  then show ?thesis
  proof cases
    case small
    with assms show ?thesis by (simp add: utf8_char_def Let_def)
  next
    case sb
    with assms have "a = char_of (192 + ?nb div 64)" by (simp add: utf8_char_def Let_def)
    then have "?na = (192 + ?nb div 64) mod 256" by (metis of_char_of)
    with sb utf8_lead[OF lb] show ?thesis by simp
  next
    case bs
    with assms have "b = char_of (192 + ?na div 64)" by (simp add: utf8_char_def Let_def)
    then have "?nb = (192 + ?na div 64) mod 256" by (metis of_char_of)
    with bs utf8_lead[OF la] show ?thesis by simp
  next
    case big
    with assms have e: "char_of (192 + ?na div 64) = (char_of (192 + ?nb div 64) :: char)"
      "char_of (128 + ?na mod 64) = (char_of (128 + ?nb mod 64) :: char)" "r = t"
      by (simp_all add: utf8_char_def Let_def)
    from e(1) have "(of_char (char_of (192 + ?na div 64) :: char) :: nat)
        = of_char (char_of (192 + ?nb div 64) :: char)"
      by (rule arg_cong)
    then have "(192 + ?na div 64) mod 256 = (192 + ?nb div 64) mod 256"
      by (simp only: of_char_of)
    then have d: "?na div 64 = ?nb div 64"
      by (simp add: utf8_lead[OF la] utf8_lead[OF lb])
    from e(2) have "(of_char (char_of (128 + ?na mod 64) :: char) :: nat)
        = of_char (char_of (128 + ?nb mod 64) :: char)"
      by (rule arg_cong)
    then have "(128 + ?na mod 64) mod 256 = (128 + ?nb mod 64) mod 256"
      by (simp only: of_char_of)
    then have m: "?na mod 64 = ?nb mod 64"
      by (simp add: utf8_cont)
    have "?na = ?nb"
      using d m by (metis div_mult_mod_eq)
    then have "a = b" by simp
    with e(3) show ?thesis by simp
  qed
qed

lemma utf8_char_nonempty [simp]: "utf8_char c \<noteq> []"
  by (simp add: utf8_char_def Let_def)

text \<open>Distinct strings have distinct encodings.\<close>

lemma encode_utf8_inj: "encode_utf8 s = encode_utf8 t \<Longrightarrow> s = t"
proof (induction s arbitrary: t)
  case Nil
  then show ?case
    by (cases t) (simp_all add: encode_utf8_def)
next
  case (Cons a s)
  show ?case
  proof (cases t)
    case Nil
    with Cons.prems show ?thesis
      by (simp add: encode_utf8_def)
  next
    case (Cons b t')
    with Cons.prems have "utf8_char a @ encode_utf8 s = utf8_char b @ encode_utf8 t'"
      by (simp add: encode_utf8_def)
    then have "a = b" "encode_utf8 s = encode_utf8 t'"
      using utf8_char_inj by blast+
    with Cons.IH Cons show ?thesis by simp
  qed
qed

section \<open>Items\<close>

lemma dict_get_update:
  "dict_get (AList.update k v ps) k' d = (if k' = k then v else dict_get ps k' d)"
  by (simp add: dict_get_def update_conv')

lemma py_get_dict [simp]: "py_get (PyDict kvs) k d = Inr (dict_get kvs k d)"
  by (simp add: py_get_def)

lemma py_strip_val_str [simp]: "py_strip_val (PyStr t) = Inr (py_strip t)"
  by (simp add: py_strip_val_def)

lemma py_strip_val_Inr: "py_strip_val x = Inr t \<longleftrightarrow> (\<exists>u. x = PyStr u \<and> t = py_strip u)"
  by (auto simp: py_strip_val_def split: pyval.splits)

lemma bindE_eq_Inr: "bindE m f = Inr y \<longleftrightarrow> (\<exists>x. m = Inr x \<and> f x = Inr y)"
  by (cases m) auto

text \<open>What an emitted item holds, field by field.\<close>

lemma create_item_emitted:
  assumes "create_item_from_ajax L s x resp = Inr (Some it)"
  shows "\<exists>kvs sigla.
           x = PyDict kvs
         \<and> py_truthy (dict_get kvs ''codigo'' PyNone)
         \<and> dict_get kvs ''sigla'' (PyStr []) = PyStr sigla
         \<and> type it = py_strip sigla
         \<and> number it = dict_get kvs ''numero'' PyNone
         \<and> year it = dict_get kvs ''ano'' PyNone
         \<and> url it = urljoin L (response_url resp)
               (pdf_link_template (dict_get kvs ''natodigital'' PyNone) (dict_get kvs ''codigo'' PyNone))
         \<and> uuid it = md5_hexdigest L (encode_utf8 (py_str (dict_get kvs ''codigo'' PyNone)))
         \<and> file_urls it = [url it]
         \<and> md_files it = uf @ ''/'' @ slug @ ''/'' @ normalized_type (type it) @ ''-''
                @ py_str (number it) @ ''-'' @ py_str (year it) @ ''.md''"
proof -
  obtain kvs where x: "x = PyDict kvs"
    using assms by (cases x) (simp_all add: create_item_from_ajax_def py_get_def)
  show ?thesis
    using assms unfolding x create_item_from_ajax_def
    by (auto simp: bindE_eq_Inr py_strip_val_Inr Let_def split: if_splits)
qed

lemma text_field_okD:
  "text_field_ok kvs k \<Longrightarrow> \<exists>t. dict_get kvs k (PyStr []) = PyStr t"
  by (auto simp: text_field_ok_def split: pyval.splits)

lemma authors_ok:
  "list_all promovente_ok ps \<Longrightarrow>
   \<exists>as. mapE (\<lambda>p. bindE (py_get p ''texto'' (PyStr [])) py_strip_val) ps = Inr as"
proof (induction ps)
  case Nil
  show ?case by simp
next
  case (Cons p ps)
  then obtain as where as: "mapE (\<lambda>p. bindE (py_get p ''texto'' (PyStr [])) py_strip_val) ps = Inr as"
    by auto
  from Cons.prems obtain pk t where "p = PyDict pk" "dict_get pk ''texto'' (PyStr []) = PyStr t"
    by (auto simp: promovente_ok_def dest: text_field_okD split: pyval.splits)
  with as show ?case by simp
qed

text \<open>A valid record becomes an item; a well-formed one without a code is skipped.\<close>

lemma create_item_valid:
  assumes "valid_record x"
  shows "\<exists>it. create_item_from_ajax L s x resp = Inr (Some it)"
proof -
  from assms obtain kvs where x: "x = PyDict kvs"
    and c: "py_truthy (dict_get kvs ''codigo'' PyNone)"
    by (auto simp: valid_record_def has_code_def split: pyval.splits)
  from assms x c have ok: "text_field_ok kvs ''texto''" "text_field_ok kvs ''sigla''"
    "promoventes_ok kvs" "text_field_ok kvs ''ementa''"
    by (simp_all add: valid_record_def well_formed_record_def)
  from ok(1) obtain t1 where t1: "dict_get kvs ''texto'' (PyStr []) = PyStr t1"
    by (auto dest: text_field_okD)
  from ok(2) obtain t2 where t2: "dict_get kvs ''sigla'' (PyStr []) = PyStr t2"
    by (auto dest: text_field_okD)
  from ok(4) obtain t3 where t3: "dict_get kvs ''ementa'' (PyStr []) = PyStr t3"
    by (auto dest: text_field_okD)
  from ok(3) obtain ps where ps: "py_iter (dict_get kvs ''promoventes'' (PyList [])) = Inr ps"
    and all: "list_all promovente_ok ps"
    by (auto simp: promoventes_ok_def split: sum.splits)
  from authors_ok[OF all] obtain as where
    as: "mapE (\<lambda>p. bindE (py_get p ''texto'' (PyStr [])) py_strip_val) ps = Inr as"
    by auto
  show ?thesis
    unfolding x create_item_from_ajax_def
    by (simp add: c t1 t2 t3 ps as Let_def)
qed

lemma create_item_skipped:
  assumes "well_formed_record x" "\<not> has_code x"
  shows "create_item_from_ajax L s x resp = Inr None"
  using assms
  by (auto simp: well_formed_record_def has_code_def create_item_from_ajax_def
      split: pyval.splits)

lemma text_field_okI: "dict_get kvs k (PyStr []) = PyStr t \<Longrightarrow> text_field_ok kvs k"
  by (simp add: text_field_ok_def)

lemma authors_ok_conv:
  "mapE (\<lambda>p. bindE (py_get p ''texto'' (PyStr [])) py_strip_val) ps = Inr as \<Longrightarrow>
   list_all promovente_ok ps"
proof (induction ps arbitrary: as)
  case Nil
  show ?case by simp
next
  case (Cons p ps)
  from Cons.prems obtain a as' where
    p: "bindE (py_get p ''texto'' (PyStr [])) py_strip_val = Inr a"
    and r: "mapE (\<lambda>p. bindE (py_get p ''texto'' (PyStr [])) py_strip_val) ps = Inr as'"
    by (auto simp: bindE_eq_Inr)
  from p have "promovente_ok p"
    by (cases p) (auto simp: py_get_def promovente_ok_def py_strip_val_Inr intro: text_field_okI)
  with Cons.IH[OF r] show ?case by simp
qed

text \<open>The well-formed records are exactly those on which no exception is raised.\<close>

lemma well_formed_record_iff:
  "well_formed_record x \<longleftrightarrow> (\<exists>r. create_item_from_ajax L s x resp = Inr r)"
proof
  assume wf: "well_formed_record x"
  show "\<exists>r. create_item_from_ajax L s x resp = Inr r"
  proof (cases "has_code x")
    case True
    with wf have "valid_record x" by (simp add: valid_record_def)
    from create_item_valid[OF this] show ?thesis by blast
  next
    case False
    from create_item_skipped[OF wf False] show ?thesis by blast
  qed
next
  assume "\<exists>r. create_item_from_ajax L s x resp = Inr r"
  then obtain r where r: "create_item_from_ajax L s x resp = Inr r" ..
  then obtain kvs where x: "x = PyDict kvs"
    by (cases x) (simp_all add: create_item_from_ajax_def py_get_def)
  show "well_formed_record x"
  proof (cases "py_truthy (dict_get kvs ''codigo'' PyNone)")
    case False
    then show ?thesis by (simp add: x well_formed_record_def)
  next
    case True
    from r True obtain ps as where
      "text_field_ok kvs ''texto''" "text_field_ok kvs ''sigla''" "text_field_ok kvs ''ementa''"
      and ps: "py_iter (dict_get kvs ''promoventes'' (PyList [])) = Inr ps"
      and as: "mapE (\<lambda>p. bindE (py_get p ''texto'' (PyStr [])) py_strip_val) ps = Inr as"
      unfolding x create_item_from_ajax_def
      by (auto simp: bindE_eq_Inr py_strip_val_Inr Let_def intro: text_field_okI)
    moreover have "promoventes_ok kvs"
      using ps authors_ok_conv[OF as] by (simp add: promoventes_ok_def)
    ultimately show ?thesis
      using True by (simp add: x well_formed_record_def)
  qed
qed

lemma well_formed_record_number_year:
  assumes "well_formed_record (PyDict kvs)"
  shows "well_formed_record (PyDict (AList.update ''numero'' v (AList.update ''ano'' w kvs)))"
  using assms
  by (auto simp: well_formed_record_def text_field_ok_def promoventes_ok_def dict_get_update
      split: if_splits)

lemmas py_eval =
  create_item_from_ajax_def py_get_def dict_get_def py_strip_val_def py_strip_def
  py_isspace_def py_iter_def py_lower_def py_replace_def normalized_type_def
  pdf_link_template_def py_str_def py_str_int_def str_nat.simps digit_char_eval
  encode_utf8_def utf8_char_def uf_def slug_def Let_def
  bench_lib_def bench_urljoin_def bench_md5_def bench_spider_def bench_response_def
  bench_server_def fetch_def start_requests_def ajax_url_def query_string_def
  items_per_page_ajax_def house_name_def





lemmas parse_eval =
  parse_def items_of_def requests_of_def limit_reached_def may_continue_def
  get_next_page_request_def py_int_str_def py_nat_str_def is_digit_def digit_val_def

text \<open>
  Claim C10. A record with a process code is turned into an item whatever its number
  and year are: neither field is among the conditions under which
  \<^verbatim>\<open>create_item_from_ajax\<close> raises, and any values put in their place are accepted
  and carried into the item as they are. An absent field is carried into the item as
  \<^verbatim>\<open>None\<close> and written into the storage path as the text \<^verbatim>\<open>None\<close>, and the loop
  yields the item.
\<close>

theorem missing_number_year:
  assumes "well_formed_record (PyDict kvs)"
    and "py_truthy (dict_get kvs ''codigo'' PyNone)"
  shows "\<exists>it. create_item_from_ajax L s (PyDict kvs) resp = Inr (Some it)
        \<and> number it = dict_get kvs ''numero'' PyNone
        \<and> year it = dict_get kvs ''ano'' PyNone
        \<and> (map_of kvs ''numero'' = None \<longrightarrow> number it = PyNone \<and> py_str (number it) = ''None'')
        \<and> (map_of kvs ''ano'' = None \<longrightarrow> year it = PyNone \<and> py_str (year it) = ''None'')
        \<and> md_files it = uf @ ''/'' @ slug @ ''/'' @ normalized_type (type it) @ ''-''
             @ py_str (number it) @ ''-'' @ py_str (year it) @ ''.md''
        \<and> (\<not> limit_reached s \<longrightarrow>
             (\<exists>it'. parse_loop L resp s [PyDict kvs] =
                      ([Item it'], Exhausted,
                       s\<lparr>items_processed_count := items_processed_count s + 1\<rparr>)
                   \<and> number it' = number it \<and> year it' = year it
                   \<and> md_files it' = md_files it))
        \<and> (\<forall>v w. \<exists>it'.
               create_item_from_ajax L s
                 (PyDict (AList.update ''numero'' v (AList.update ''ano'' w kvs))) resp
                 = Inr (Some it')
             \<and> number it' = v \<and> year it' = w)"
proof -
  have any: "\<exists>it'. create_item_from_ajax L s
                 (PyDict (AList.update ''numero'' v (AList.update ''ano'' w kvs))) resp
                 = Inr (Some it')
             \<and> number it' = v \<and> year it' = w" for v w
  proof -
    let ?kvs = "AList.update ''numero'' v (AList.update ''ano'' w kvs)"
    have "valid_record (PyDict ?kvs)"
      using well_formed_record_number_year[OF assms(1), of v w] assms(2)
      by (simp add: valid_record_def has_code_def dict_get_update)
    then obtain it' where it': "create_item_from_ajax L s (PyDict ?kvs) resp = Inr (Some it')"
      using create_item_valid by blast
    from create_item_emitted[OF it'] have "number it' = v" "year it' = w"
      by (auto simp: dict_get_update)
    with it' show ?thesis by blast
  qed
  have v: "valid_record (PyDict kvs)"
    using assms by (simp add: valid_record_def has_code_def)
  obtain it where it: "create_item_from_ajax L s (PyDict kvs) resp = Inr (Some it)"
    using create_item_valid[OF v] by blast
  let ?s1 = "s\<lparr>items_processed_count := items_processed_count s + 1\<rparr>"
  obtain it' where it': "create_item_from_ajax L ?s1 (PyDict kvs) resp = Inr (Some it')"
    using create_item_valid[OF v] by blast
  note f = create_item_emitted[OF it] and f' = create_item_emitted[OF it']
  have loop: "\<not> limit_reached s \<Longrightarrow>
      parse_loop L resp s [PyDict kvs] = ([Item it'], Exhausted, ?s1)"
    using it' by (simp add: Let_def)
  have same: "number it' = number it" "year it' = year it" "md_files it' = md_files it"
    using f f' by auto
  have none: "py_str PyNone = ''None''"
    by (simp add: py_str_def)
  have nn: "map_of kvs ''numero'' = None \<Longrightarrow> number it = PyNone"
    and ny: "map_of kvs ''ano'' = None \<Longrightarrow> year it = PyNone"
    using f by (auto simp: dict_get_def)
  show ?thesis
    using it f loop same none nn ny any by auto
qed

theorem missing_number_year_witness:
  "\<exists>it. create_item_from_ajax (bench_lib PyNone) (bench_spider None)
          (PyDict [(''codigo'', PyStr ''X1''), (''sigla'', PyStr ''PL'')]) bench_response
        = Inr (Some it)
      \<and> number it = PyNone \<and> year it = PyNone
      \<and> md_files it = ''SP/sp-sao-paulo/pl-None-None.md''"
proof -
  have w: "well_formed_record (PyDict [(''codigo'', PyStr ''X1''), (''sigla'', PyStr ''PL'')])"
    by (simp add: well_formed_record_def text_field_ok_def promoventes_ok_def py_eval)
  have c: "py_truthy (dict_get [(''codigo'', PyStr ''X1''), (''sigla'', PyStr ''PL'')]
             ''codigo'' PyNone)"
    by (simp add: py_eval)
  from missing_number_year[OF w c, of "bench_lib PyNone" "bench_spider None" bench_response]
  obtain it where it: "create_item_from_ajax (bench_lib PyNone) (bench_spider None)
          (PyDict [(''codigo'', PyStr ''X1''), (''sigla'', PyStr ''PL'')]) bench_response
        = Inr (Some it)"
    and n: "number it = PyNone" "year it = PyNone"
    and m: "md_files it = uf @ ''/'' @ slug @ ''/'' @ normalized_type (type it) @ ''-''
             @ py_str (number it) @ ''-'' @ py_str (year it) @ ''.md''"
    by (auto simp: dict_get_def)
  from create_item_emitted[OF it] have "type it = ''PL''"
    by (simp add: py_eval)
  with m n have "md_files it = ''SP/sp-sao-paulo/pl-None-None.md''"
    by (simp add: py_eval)
  with it n show ?thesis by blast
qed

text \<open>
  Claim C8, as the code has it. The content identifier of an emitted item is the MD5 hex
  digest of the UTF-8 bytes of \<^verbatim>\<open>str(code)\<close>. It depends on nothing else: two items
  built from codes with the same string form carry the same identifier, whenever and
  from whichever response they are built. Two codes with different string forms carry
  different identifiers unless the digests of their (different) byte strings collide;
  and two different codes of the same kind, both integers or both strings, have
  different string forms.
\<close>

theorem content_identifier:
  assumes "create_item_from_ajax L s1 (PyDict kvs1) resp1 = Inr (Some it1)"
    and "create_item_from_ajax L s2 (PyDict kvs2) resp2 = Inr (Some it2)"
    and "c1 = dict_get kvs1 ''codigo'' PyNone"
    and "c2 = dict_get kvs2 ''codigo'' PyNone"
  shows "uuid it1 = md5_hexdigest L (encode_utf8 (py_str c1))
       \<and> uuid it2 = md5_hexdigest L (encode_utf8 (py_str c2))
       \<and> (py_str c1 = py_str c2 \<longrightarrow> uuid it1 = uuid it2)
       \<and> (py_str c1 \<noteq> py_str c2 \<longrightarrow>
            uuid it1 \<noteq> uuid it2
            \<or> (encode_utf8 (py_str c1) \<noteq> encode_utf8 (py_str c2)
               \<and> md5_hexdigest L (encode_utf8 (py_str c1)) =
                  md5_hexdigest L (encode_utf8 (py_str c2))))
       \<and> (c1 \<noteq> c2 \<and> ((\<exists>a b. c1 = PyInt a \<and> c2 = PyInt b) \<or> (\<exists>a b. c1 = PyStr a \<and> c2 = PyStr b))
            \<longrightarrow> py_str c1 \<noteq> py_str c2)"
proof -
  have u1: "uuid it1 = md5_hexdigest L (encode_utf8 (py_str c1))"
    using create_item_emitted[OF assms(1)] assms(3) by auto
  have u2: "uuid it2 = md5_hexdigest L (encode_utf8 (py_str c2))"
    using create_item_emitted[OF assms(2)] assms(4) by auto
  have inj: "py_str c1 \<noteq> py_str c2 \<Longrightarrow> encode_utf8 (py_str c1) \<noteq> encode_utf8 (py_str c2)"
    using encode_utf8_inj by blast
  have kind: "c1 \<noteq> c2 \<Longrightarrow> (\<exists>a b. c1 = PyInt a \<and> c2 = PyInt b) \<or> (\<exists>a b. c1 = PyStr a \<and> c2 = PyStr b)
      \<Longrightarrow> py_str c1 \<noteq> py_str c2"
    by (auto simp: py_str_def dest: py_str_int_inj)
  show ?thesis
    using u1 u2 inj kind by auto
qed

theorem content_identifier_witness:
  "\<exists>it1 it2.
     create_item_from_ajax (bench_lib PyNone) (bench_spider None)
       (PyDict [(''codigo'', PyStr ''X1'')]) bench_response = Inr (Some it1)
   \<and> create_item_from_ajax (bench_lib PyNone) (bench_spider (Some 5))
       (PyDict [(''codigo'', PyStr ''X2'')]) bench_response = Inr (Some it2)
   \<and> uuid it1 = ''bb7f5ae6220c9828e5ec91faf054197c''
   \<and> uuid it2 = ''54105bddbfe3f639d49cbe8f5182c958''
   \<and> uuid it1 \<noteq> uuid it2"
proof -
  obtain it1 where h1: "create_item_from_ajax (bench_lib PyNone) (bench_spider None)
       (PyDict [(''codigo'', PyStr ''X1'')]) bench_response = Inr (Some it1)"
    by (simp add: py_eval)
  obtain it2 where h2: "create_item_from_ajax (bench_lib PyNone) (bench_spider (Some 5))
       (PyDict [(''codigo'', PyStr ''X2'')]) bench_response = Inr (Some it2)"
    by (simp add: py_eval)
  from content_identifier[OF h1 h2 refl refl]
  have "uuid it1 = ''bb7f5ae6220c9828e5ec91faf054197c''"
    "uuid it2 = ''54105bddbfe3f639d49cbe8f5182c958''"
    by (simp_all add: py_eval)
  with h1 h2 show ?thesis by auto
qed

text \<open>
  The claim as stated fails for two different codes with the same string form: the
  integer 123 and the string \<^verbatim>\<open>123\<close> on one page give two items with the same
  identifier, and no collision is involved, since the hashed bytes are the same.
\<close>

theorem content_identifier_counterexample:
  "map uuid (items_of (yields (parse
       (bench_lib (PyDict [(''data'', PyList [PyDict [(''codigo'', PyInt 123)],
                                              PyDict [(''codigo'', PyStr ''123'')]])]))
       (bench_spider None) bench_response)))
     = [''202cb962ac59075b964b07152d234b70'', ''202cb962ac59075b964b07152d234b70'']
   \<and> PyInt 123 \<noteq> PyStr ''123''
   \<and> encode_utf8 (py_str (PyInt 123)) = encode_utf8 (py_str (PyStr ''123''))"
  by (simp add: parse_eval py_eval)

section \<open>The loop over a page\<close>

lemma items_of_simps [simp]:
  "items_of [] = []"
  "items_of (Item it # ys) = it # items_of ys"
  "items_of (Request rq # ys) = items_of ys"
  "items_of (NoOutput # ys) = items_of ys"
  "items_of (ys @ zs) = items_of ys @ items_of zs"
  by (simp_all add: items_of_def)

lemma requests_of_simps [simp]:
  "requests_of [] = []"
  "requests_of (Item it # ys) = requests_of ys"
  "requests_of (Request rq # ys) = rq # requests_of ys"
  "requests_of (NoOutput # ys) = requests_of ys"
  "requests_of (ys @ zs) = requests_of ys @ requests_of zs"
  by (simp_all add: requests_of_def)

text \<open>The loop yields items only.\<close>

lemma parse_loop_requests:
  "parse_loop L resp s xs = (ys, ex, s') \<Longrightarrow> requests_of ys = []"
proof (induction xs arbitrary: s ys ex s')
  case Nil
  then show ?case by simp
next
  case (Cons x xs)
  then show ?case
    by (fastforce simp: Let_def split: if_splits sum.splits option.splits prod.splits)
qed

lemma limit_allows_step:
  "limit_allows s (Suc n) \<Longrightarrow>
   \<not> limit_reached s \<and> limit_allows (s\<lparr>items_processed_count := items_processed_count s + 1\<rparr>) n"
  by (auto simp: limit_allows_def limit_reached_def split: option.splits)

text \<open>
  A page of well-formed records that the limit does not cut short: the loop runs to
  the end, counts every record and yields one item for each record with a code.
\<close>

lemma parse_loop_all:
  assumes "list_all well_formed_record xs" and "limit_allows s (length xs)"
  shows "\<exists>ys. parse_loop L resp s xs =
           (ys, Exhausted, s\<lparr>items_processed_count := items_processed_count s + int (length xs)\<rparr>)
         \<and> length (items_of ys) = length (filter has_code xs)"
  using assms
proof (induction xs arbitrary: s)
  case Nil
  then show ?case by simp
next
  case (Cons x xs)
  let ?s1 = "s\<lparr>items_processed_count := items_processed_count s + 1\<rparr>"
  from Cons.prems(2) have nr: "\<not> limit_reached s" and la: "limit_allows ?s1 (length xs)"
    using limit_allows_step[of s "length xs"] by simp_all
  from Cons.prems(1) have wf: "well_formed_record x" "list_all well_formed_record xs"
    by simp_all
  from Cons.IH[OF wf(2) la, of ] obtain ys where
    ys: "parse_loop L resp ?s1 xs =
           (ys, Exhausted, ?s1\<lparr>items_processed_count := items_processed_count ?s1 + int (length xs)\<rparr>)"
    and n: "length (items_of ys) = length (filter has_code xs)"
    by blast
  have st: "?s1\<lparr>items_processed_count := items_processed_count ?s1 + int (length xs)\<rparr>
      = s\<lparr>items_processed_count := items_processed_count s + int (length (x # xs))\<rparr>"
    by simp
  show ?case
  proof (cases "has_code x")
    case True
    with wf(1) have "valid_record x" by (simp add: valid_record_def)
    then obtain it where "create_item_from_ajax L ?s1 x resp = Inr (Some it)"
      using create_item_valid by blast
    with nr ys n True st show ?thesis by (simp add: Let_def)
  next
    case False
    with wf(1) have "create_item_from_ajax L ?s1 x resp = Inr None"
      by (rule create_item_skipped)
    with nr ys n False st show ?thesis by (simp add: Let_def)
  qed
qed

text \<open>A loop that runs through a prefix goes on with the rest.\<close>

lemma parse_loop_append:
  "parse_loop L resp s xs = (ys, Exhausted, s1) \<Longrightarrow>
   parse_loop L resp s (xs @ zs) =
     (case parse_loop L resp s1 zs of (ys', ex, s2) \<Rightarrow> (ys @ ys', ex, s2))"
proof (induction xs arbitrary: s ys)
  case Nil
  then show ?case by (simp split: prod.splits)
next
  case (Cons x xs)
  then show ?case
    by (auto simp: Let_def split: if_splits sum.splits option.splits prod.splits)
qed

text \<open>\<^verbatim>\<open>parse\<close> in terms of its loop, once the body is decoded and the records are at hand.\<close>

lemma parse_decoded:
  assumes "json_loads L (response_text resp) = Some data_json"
    and "bindE (py_get data_json ''data'' (PyList [])) py_iter = Inr xs"
    and "parse_loop L resp s xs = (ys, ex, s')"
  shows "parse L s resp =
     (case ex of
        Raised e \<Rightarrow> \<lparr>yields = ys, raised = Some e, spider_after = s'\<rparr>
      | Returned \<Rightarrow> \<lparr>yields = ys, raised = None, spider_after = s'\<rparr>
      | Exhausted \<Rightarrow>
          if may_continue s' then
            (case get_next_page_request resp data_json of
               Inl e \<Rightarrow> \<lparr>yields = ys, raised = Some e, spider_after = s'\<rparr>
             | Inr None \<Rightarrow> \<lparr>yields = ys @ [NoOutput], raised = None, spider_after = s'\<rparr>
             | Inr (Some rq) \<Rightarrow> \<lparr>yields = ys @ [Request rq], raised = None, spider_after = s'\<rparr>)
          else \<lparr>yields = ys, raised = None, spider_after = s'\<rparr>)"
  using assms by (simp add: parse_def split: loop_exit.splits)

lemma well_formed_page_records:
  assumes "well_formed_page data_json"
  shows "bindE (py_get data_json ''data'' (PyList [])) py_iter = Inr (records_of data_json)"
    and "list_all well_formed_record (records_of data_json)"
  using assms
  by (auto simp: well_formed_page_def records_of_def py_iter_def split: pyval.splits)

section \<open>Skipped records and the limit\<close>

text \<open>
  Claim C1, as the code has it. A page of \<open>K\<close> well-formed raw records of which \<open>M\<close>
  lack a process code, parsed while the limit leaves room for \<open>K\<close> records, yields
  exactly \<open>K - M\<close> items, and the loop runs to the end of the array without an error.
  The processed-count grows by \<open>K\<close>: the counter is incremented for every record the
  loop takes up, before the process code is looked at, so a skipped record counts
  against the limit like any other.
\<close>

theorem skip_semantics:
  assumes "json_loads L (response_text resp) = Some data_json"
    and "well_formed_page data_json"
    and "limit_allows s (length (records_of data_json))"
  shows "length (items_of (yields (parse L s resp))) =
           length (records_of data_json)
           - length (filter (\<lambda>x. \<not> has_code x) (records_of data_json))
       \<and> items_processed_count (spider_after (parse L s resp)) =
           items_processed_count s + int (length (records_of data_json))
       \<and> (\<exists>ys s'. parse_loop L resp s (records_of data_json) = (ys, Exhausted, s'))"
proof -
  let ?xs = "records_of data_json"
  let ?s' = "s\<lparr>items_processed_count := items_processed_count s + int (length ?xs)\<rparr>"
  note wf = well_formed_page_records[OF assms(2)]
  from parse_loop_all[OF wf(2) assms(3)] obtain ys where
    ys: "parse_loop L resp s ?xs = (ys, Exhausted, ?s')"
    and n: "length (items_of ys) = length (filter has_code ?xs)"
    by blast
  have p: "items_of (yields (parse L s resp)) = items_of ys"
    "spider_after (parse L s resp) = ?s'"
    by (simp_all add: parse_decoded[OF assms(1) wf(1) ys] split: sum.splits option.splits)
  have "length (filter has_code ?xs) + length (filter (\<lambda>x. \<not> has_code x) ?xs) = length ?xs"
    by (rule sum_length_filter_compl)
  with n p ys show ?thesis by auto
qed

theorem skip_semantics_witness:
  "length (items_of (yields (parse
       (bench_lib (PyDict [(''data'', PyList [PyDict [(''codigo'', PyStr ''X1'')], PyDict [],
                                              PyDict [(''codigo'', PyStr ''X2'')]])]))
       (bench_spider None) bench_response))) = 2
   \<and> items_processed_count (spider_after (parse
       (bench_lib (PyDict [(''data'', PyList [PyDict [(''codigo'', PyStr ''X1'')], PyDict [],
                                              PyDict [(''codigo'', PyStr ''X2'')]])]))
       (bench_spider None) bench_response)) = 3"
proof -
  let ?page = "PyDict [(''data'', PyList [PyDict [(''codigo'', PyStr ''X1'')], PyDict [],
                                          PyDict [(''codigo'', PyStr ''X2'')]])]"
  have d: "json_loads (bench_lib ?page) (response_text bench_response) = Some ?page"
    by (simp add: py_eval)
  have w: "well_formed_page ?page"
    by (simp add: well_formed_page_def well_formed_record_def text_field_ok_def
        promoventes_ok_def py_eval)
  have l: "limit_allows (bench_spider None) (length (records_of ?page))"
    by (simp add: limit_allows_def bench_spider_def)
  from skip_semantics[OF d w l] show ?thesis
    by (simp add: records_of_def has_code_def py_eval)
qed

text \<open>
  The claim as stated fails on the count: of two records, one without a code, one item
  is emitted and the processed-count rises from 0 to 2, not to 1.
\<close>

theorem skip_semantics_counterexample:
  "length (items_of (yields (parse
       (bench_lib (PyDict [(''data'', PyList [PyDict [(''codigo'', PyStr ''X1'')], PyDict []])]))
       (bench_spider None) bench_response))) = 1
   \<and> items_processed_count (bench_spider None) = 0
   \<and> items_processed_count (spider_after (parse
       (bench_lib (PyDict [(''data'', PyList [PyDict [(''codigo'', PyStr ''X1'')], PyDict []])]))
       (bench_spider None) bench_response)) = 2"
  by (simp add: parse_eval py_eval)

lemma valid_records_all_coded:
  "list_all valid_record xs \<Longrightarrow> list_all well_formed_record xs \<and> filter has_code xs = xs"
  by (induction xs) (simp_all add: valid_record_def)

text \<open>
  Claim C3, as the code has it. With a limit \<open>l > 0\<close> and \<open>n = l - count\<close> records
  still allowed (\<open>n = l\<close> on the first page), a page whose first \<open>n\<close> raw records
  are all valid yields exactly \<open>n\<close> items and no request, and the counter stands at
  the limit: either the check before the next record ends the generator, or the page
  ends there and the check before pagination fails. Neither the page size nor what
  follows the first \<open>n\<close> records matters.
\<close>

theorem limit_enforcement:
  assumes "json_loads L (response_text resp) = Some data_json"
    and "bindE (py_get data_json ''data'' (PyList [])) py_iter = Inr xs"
    and "total_items_limit s = Some l" and "0 < l" and "items_processed_count s < l"
    and "n = nat (l - items_processed_count s)"
    and "n \<le> length xs" and "list_all valid_record (take n xs)"
  shows "length (items_of (yields (parse L s resp))) = n
       \<and> requests_of (yields (parse L s resp)) = []
       \<and> raised (parse L s resp) = None
       \<and> items_processed_count (spider_after (parse L s resp)) = l"
proof -
  let ?pre = "take n xs" and ?post = "drop n xs"
  let ?s1 = "s\<lparr>items_processed_count := l\<rparr>"
  have len: "length ?pre = n" using assms(7) by simp
  have cnt: "items_processed_count s + int n = l" using assms(5,6) by simp
  have la: "limit_allows s (length ?pre)"
    using assms(3) cnt len by (simp add: limit_allows_def)
  note v = valid_records_all_coded[OF assms(8)]
  from parse_loop_all[OF conjunct1[OF v] la, of L resp] obtain ys where
    ys: "parse_loop L resp s ?pre = (ys, Exhausted, ?s1)"
    and ny: "length (items_of ys) = n"
    using cnt len conjunct2[OF v] by auto
  have reached: "limit_reached ?s1" and stop: "\<not> may_continue ?s1"
    using assms(3,4) by (simp_all add: limit_reached_def may_continue_def)
  have rest: "parse_loop L resp ?s1 ?post = ([], Exhausted, ?s1)
      \<or> parse_loop L resp ?s1 ?post = ([], Returned, ?s1)"
    using reached by (cases ?post) simp_all
  have whole: "parse_loop L resp s xs = (ys, Exhausted, ?s1)
      \<or> parse_loop L resp s xs = (ys, Returned, ?s1)"
    using parse_loop_append[OF ys, of ?post] rest by auto
  have rq: "requests_of ys = []"
    using parse_loop_requests[OF ys] .
  from whole show ?thesis
  proof
    assume w: "parse_loop L resp s xs = (ys, Exhausted, ?s1)"
    show ?thesis
      using ny rq stop by (simp add: parse_decoded[OF assms(1,2) w])
  next
    assume w: "parse_loop L resp s xs = (ys, Returned, ?s1)"
    show ?thesis
      using ny rq by (simp add: parse_decoded[OF assms(1,2) w])
  qed
qed

theorem limit_enforcement_witness:
  "length (items_of (yields (parse
       (bench_lib (PyDict [(''recordsFiltered'', PyInt 150),
                           (''data'', PyList [PyDict [(''codigo'', PyStr ''X1'')],
                                              PyDict [(''codigo'', PyStr ''X2'')],
                                              PyDict [(''codigo'', PyInt 123)]])]))
       (bench_spider (Some 2)) bench_response))) = 2
   \<and> requests_of (yields (parse
       (bench_lib (PyDict [(''recordsFiltered'', PyInt 150),
                           (''data'', PyList [PyDict [(''codigo'', PyStr ''X1'')],
                                              PyDict [(''codigo'', PyStr ''X2'')],
                                              PyDict [(''codigo'', PyInt 123)]])]))
       (bench_spider (Some 2)) bench_response)) = []"
proof -
  let ?xs = "[PyDict [(''codigo'', PyStr ''X1'')], PyDict [(''codigo'', PyStr ''X2'')],
              PyDict [(''codigo'', PyInt 123)]]"
  let ?page = "PyDict [(''recordsFiltered'', PyInt 150), (''data'', PyList ?xs)]"
  have d: "json_loads (bench_lib ?page) (response_text bench_response) = Some ?page"
    by (simp add: py_eval)
  have i: "bindE (py_get ?page ''data'' (PyList [])) py_iter = Inr ?xs"
    by (simp add: py_eval)
  have l: "total_items_limit (bench_spider (Some 2)) = Some 2" "(0::int) < 2"
    "items_processed_count (bench_spider (Some 2)) < 2"
    "(2::nat) = nat (2 - items_processed_count (bench_spider (Some 2)))"
    "(2::nat) \<le> length ?xs"
    by (simp_all add: bench_spider_def)
  have v: "list_all valid_record (take 2 ?xs)"
    by (simp add: valid_record_def has_code_def well_formed_record_def text_field_ok_def
        promoventes_ok_def py_eval)
  from limit_enforcement[OF d i l v] show ?thesis
    by simp
qed

text \<open>
  The claim as stated fails when a record without a code comes before the valid ones:
  with limit 1 the page below holds one valid record, yet nothing is emitted, because
  the skipped record has used up the limit.
\<close>

theorem limit_enforcement_counterexample:
  "valid_record (PyDict [(''codigo'', PyStr ''X1'')])
   \<and> (1::int) < items_per_page_ajax
   \<and> items_of (yields (parse
       (bench_lib (PyDict [(''data'', PyList [PyDict [], PyDict [(''codigo'', PyStr ''X1'')]])]))
       (bench_spider (Some 1)) bench_response)) = []
   \<and> raised (parse
       (bench_lib (PyDict [(''data'', PyList [PyDict [], PyDict [(''codigo'', PyStr ''X1'')]])]))
       (bench_spider (Some 1)) bench_response) = None"
  by (simp add: valid_record_def has_code_def well_formed_record_def text_field_ok_def
      promoventes_ok_def parse_eval py_eval)

section \<open>Pagination\<close>

lemma py_int_decimal [simp]: "py_int (PyStr (py_str_int i)) = Inr i"
  by simp

text \<open>
  \<^verbatim>\<open>get_next_page_request\<close> on a page that reports an integer total, for a request whose
  \<^verbatim>\<open>start\<close> and \<^verbatim>\<open>draw\<close> read as integers.
\<close>

lemma next_page:
  assumes "params_template (request resp) = Some ps"
    and "py_int (dict_get ps ''start'' (PyInt 0)) = Inr a"
    and "py_int (dict_get ps ''draw'' (PyInt 1)) = Inr d"
    and "dict_get page ''recordsFiltered'' (PyInt 0) = PyInt T"
    and "nps = AList.update ''start'' (PyStr (py_str_int (a + items_per_page_ajax)))
                 (AList.update ''draw'' (PyStr (py_str_int (d + 1))) ps)"
  shows "get_next_page_request resp (PyDict page) =
     (if a + items_per_page_ajax < T
      then Inr (Some \<lparr>request_url = ajax_url @ ''?'' @ query_string nps,
                      request_headers = request_headers (request resp),
                      params_template = Some nps\<rparr>)
      else Inr None)"
  using assms by (simp add: get_next_page_request_def Let_def)

lemma next_params:
  assumes "nps = AList.update ''start'' (PyStr (py_str_int a'))
                 (AList.update ''draw'' (PyStr (py_str_int d')) ps)"
  shows "py_int (dict_get nps ''start'' (PyInt 0)) = Inr a'"
    and "py_int (dict_get nps ''draw'' (PyInt 1)) = Inr d'"
    and "\<forall>k. k \<noteq> ''draw'' \<and> k \<noteq> ''start'' \<longrightarrow> map_of nps k = map_of ps k"
  using assms by (simp_all add: dict_get_update update_conv')




section \<open>Malformed responses\<close>

lemma bindE_eq_Inl: "bindE m f = Inl e \<longleftrightarrow> m = Inl e \<or> (\<exists>x. m = Inr x \<and> f x = Inl e)"
  by (cases m) auto

lemma py_get_no_decode_error [simp]: "py_get x k d \<noteq> Inl JSONDecodeError"
  by (simp add: py_get_def split: pyval.splits)

lemma py_iter_no_decode_error [simp]: "py_iter x \<noteq> Inl JSONDecodeError"
  by (simp add: py_iter_def split: pyval.splits)

lemma py_strip_val_no_decode_error [simp]: "py_strip_val x \<noteq> Inl JSONDecodeError"
  by (simp add: py_strip_val_def split: pyval.splits)

lemma py_int_no_decode_error [simp]: "py_int x \<noteq> Inl JSONDecodeError"
  by (cases x) (simp_all split: option.splits)

lemma py_int_less_no_decode_error [simp]: "py_int_less i x \<noteq> Inl JSONDecodeError"
  by (cases x) simp_all

lemma mapE_no_decode_error:
  "(\<And>x. f x \<noteq> Inl JSONDecodeError) \<Longrightarrow> mapE f xs \<noteq> Inl JSONDecodeError"
  by (induction xs) (auto simp: bindE_eq_Inl)

lemma create_item_no_decode_error [simp]:
  "create_item_from_ajax L s x resp \<noteq> Inl JSONDecodeError"
proof -
  have m: "\<And>ps. mapE (\<lambda>p. bindE (py_get p ''texto'' (PyStr [])) py_strip_val) ps
      \<noteq> Inl JSONDecodeError"
    by (rule mapE_no_decode_error) (simp add: bindE_eq_Inl)
  show ?thesis
    by (auto simp: create_item_from_ajax_def bindE_eq_Inl m Let_def)
qed

lemma parse_loop_no_decode_error:
  "parse_loop L resp s xs = (ys, ex, s') \<Longrightarrow> ex \<noteq> Raised JSONDecodeError"
proof (induction xs arbitrary: s ys ex s')
  case Nil
  then show ?case by auto
next
  case (Cons x xs)
  then show ?case
    by (fastforce simp: Let_def split: if_splits sum.splits option.splits prod.splits)
qed

lemma get_next_page_request_no_decode_error [simp]:
  "get_next_page_request resp data_json \<noteq> Inl JSONDecodeError"
  by (auto simp: get_next_page_request_def bindE_eq_Inl Let_def split: option.splits)

text \<open>
  Claim C2, as the code has it. \<^verbatim>\<open>parse\<close> fails with the decode error if and only if
  the body is not valid JSON; then nothing is yielded and the spider is unchanged. A
  decoded object without the records array is not an error: the array defaults to the
  empty one, so nothing is emitted, the counter is unchanged, and the parse goes on to
  the pagination step, which alone decides how it ends.
\<close>

theorem malformed_response:
  "(json_loads L (response_text resp) = None \<longrightarrow>
      parse L s resp = \<lparr>yields = [], raised = Some JSONDecodeError, spider_after = s\<rparr>)
   \<and> (raised (parse L s resp) = Some JSONDecodeError \<longrightarrow>
      json_loads L (response_text resp) = None)
   \<and> (json_loads L (response_text resp) = Some (PyDict page) \<and> map_of page ''data'' = None \<longrightarrow>
      items_of (yields (parse L s resp)) = []
      \<and> spider_after (parse L s resp) = s
      \<and> raised (parse L s resp) =
          (if may_continue s
           then (case get_next_page_request resp (PyDict page) of
                   Inl e \<Rightarrow> Some e | Inr rq \<Rightarrow> None)
           else None))"
proof -
  have A: "parse L s resp = \<lparr>yields = [], raised = Some JSONDecodeError, spider_after = s\<rparr>"
    if "json_loads L (response_text resp) = None"
    using that by (simp add: parse_def)
  have B: "json_loads L (response_text resp) = None"
    if r: "raised (parse L s resp) = Some JSONDecodeError"
  proof (rule ccontr)
    assume "json_loads L (response_text resp) \<noteq> None"
    then obtain data_json where d: "json_loads L (response_text resp) = Some data_json"
      by auto
    show False
    proof (cases "bindE (py_get data_json ''data'' (PyList [])) py_iter")
      case (Inl e)
      then have "e \<noteq> JSONDecodeError"
        by (auto simp: bindE_eq_Inl)
      with r d Inl show False by (simp add: parse_def)
    next
      case (Inr xs)
      obtain ys ex s' where lp: "parse_loop L resp s xs = (ys, ex, s')"
        by (cases "parse_loop L resp s xs") auto
      from parse_loop_no_decode_error[OF lp] r show False
        by (cases ex)
           (auto simp: parse_decoded[OF d Inr lp] split: if_splits sum.splits option.splits)
    qed
  qed
  have C: "items_of (yields (parse L s resp)) = []
      \<and> spider_after (parse L s resp) = s
      \<and> raised (parse L s resp) =
          (if may_continue s
           then (case get_next_page_request resp (PyDict page) of
                   Inl e \<Rightarrow> Some e | Inr rq \<Rightarrow> None)
           else None)"
    if d: "json_loads L (response_text resp) = Some (PyDict page)"
      and m: "map_of page ''data'' = None"
  proof -
    from m have i: "bindE (py_get (PyDict page) ''data'' (PyList [])) py_iter = Inr []"
      by (simp add: dict_get_def py_iter_def)
    have lp: "parse_loop L resp s [] = ([], Exhausted, s)"
      by simp
    show ?thesis
      by (simp add: parse_decoded[OF d i lp] split: sum.splits option.splits)
  qed
  from A B C show ?thesis by blast
qed

theorem malformed_response_witness:
  "parse (bench_lib PyNone) (bench_spider None)
      \<lparr>response_url = ajax_url, response_text = ''<html>'',
       request = start_requests (bench_spider None)\<rparr>
    = \<lparr>yields = [], raised = Some JSONDecodeError, spider_after = bench_spider None\<rparr>
   \<and> parse (bench_lib (PyDict [(''recordsFiltered'', PyInt 0)])) (bench_spider None)
        bench_response
      = \<lparr>yields = [NoOutput], raised = None, spider_after = bench_spider None\<rparr>"
proof -
  have n: "json_loads (bench_lib PyNone)
      (response_text \<lparr>response_url = ajax_url, response_text = ''<html>'',
                      request = start_requests (bench_spider None)\<rparr>) = None"
    by (simp add: bench_lib_def)
  from malformed_response[of "bench_lib PyNone" _ "bench_spider None"] n
  have 1: "parse (bench_lib PyNone) (bench_spider None)
      \<lparr>response_url = ajax_url, response_text = ''<html>'',
       request = start_requests (bench_spider None)\<rparr>
    = \<lparr>yields = [], raised = Some JSONDecodeError, spider_after = bench_spider None\<rparr>"
    by blast
  have 2: "parse (bench_lib (PyDict [(''recordsFiltered'', PyInt 0)])) (bench_spider None)
        bench_response
      = \<lparr>yields = [NoOutput], raised = None, spider_after = bench_spider None\<rparr>"
    by (simp add: parse_eval py_eval)
  from 1 2 show ?thesis by simp
qed

text \<open>
  The claim as stated fails for the body \<^verbatim>\<open>{}\<close>: it decodes to an object without the
  records array, and \<^verbatim>\<open>parse\<close> returns normally, yielding no item and no request.
\<close>

theorem malformed_response_counterexample:
  "json_loads (bench_lib (PyDict [])) (response_text bench_response) = Some (PyDict [])
   \<and> map_of ([] :: (string \<times> pyval) list) ''data'' = None
   \<and> parse (bench_lib (PyDict [])) (bench_spider None) bench_response
      = \<lparr>yields = [NoOutput], raised = None, spider_after = bench_spider None\<rparr>"
  by (simp add: parse_eval py_eval)

section \<open>The walk over all pages\<close>

text \<open>A well-formed page parsed without a limit: no error, and pagination decides alone.\<close>

lemma parse_unlimited:
  assumes "json_loads L (response_text resp) = Some data_json"
    and "well_formed_page data_json"
    and "filtered_total data_json = PyInt T"
    and "total_items_limit s = None"
    and "params_template (request resp) = Some ps"
    and "py_int (dict_get ps ''start'' (PyInt 0)) = Inr a"
    and "py_int (dict_get ps ''draw'' (PyInt 1)) = Inr d"
    and "nps = AList.update ''start'' (PyStr (py_str_int (a + items_per_page_ajax)))
                 (AList.update ''draw'' (PyStr (py_str_int (d + 1))) ps)"
  shows "raised (parse L s resp) = None"
    and "requests_of (yields (parse L s resp)) =
           (if a + items_per_page_ajax < T
            then [\<lparr>request_url = ajax_url @ ''?'' @ query_string nps,
                   request_headers = request_headers (request resp),
                   params_template = Some nps\<rparr>]
            else [])"
proof -
  let ?xs = "records_of data_json"
  from assms(2) obtain page where dj: "data_json = PyDict page"
    by (auto simp: well_formed_page_def split: pyval.splits)
  from assms(3) dj have t: "dict_get page ''recordsFiltered'' (PyInt 0) = PyInt T"
    by (simp add: filtered_total_def)
  note wf = well_formed_page_records[OF assms(2)]
  have la: "limit_allows s (length ?xs)"
    using assms(4) by (simp add: limit_allows_def)
  from parse_loop_all[OF wf(2) la, of L resp] obtain ys s' where
    lp: "parse_loop L resp s ?xs = (ys, Exhausted, s')"
    by blast
  have "total_items_limit s' = None"
    using parse_loop_limit[OF lp] assms(4) by simp
  then have mc: "may_continue s'"
    by (simp add: may_continue_def)
  have rq: "requests_of ys = []"
    using parse_loop_requests[OF lp] .
  note np = next_page[OF assms(5-7) t assms(8)]
  show "raised (parse L s resp) = None"
    using parse_decoded[OF assms(1) wf(1) lp] mc np dj by simp
  show "requests_of (yields (parse L s resp)) =
           (if a + items_per_page_ajax < T
            then [\<lparr>request_url = ajax_url @ ''?'' @ query_string nps,
                   request_headers = request_headers (request resp),
                   params_template = Some nps\<rparr>]
            else [])"
    using parse_decoded[OF assms(1) wf(1) lp] mc np dj rq by simp
qed

lemma pages_last:
  "\<not> a + 100 < (T::int) \<Longrightarrow> max 1 (nat ((T - a + 99) div 100)) = 1"
  by simp

lemma pages_more:
  "a + 100 < (T::int) \<Longrightarrow>
   max 1 (nat ((T - a + 99) div 100)) = Suc (max 1 (nat ((T - (a + 100) + 99) div 100)))"
  by simp

text \<open>
  From a request at offset \<open>a\<close>, against a server that always reports the total \<open>T\<close>
  with well-formed pages, the unlimited walk ends after
  \<open>max 1 \<lceil>(T - a) / 100\<rceil>\<close> requests, given that much fuel.
\<close>

lemma walk_pages:
  assumes srv: "\<And>rq. \<exists>data_json. json_loads L (server rq) = Some data_json
                  \<and> well_formed_page data_json \<and> filtered_total data_json = PyInt T"
  shows "total_items_limit s = None \<Longrightarrow> params_template rq = Some ps \<Longrightarrow>
         py_int (dict_get ps ''start'' (PyInt 0)) = Inr a \<Longrightarrow>
         py_int (dict_get ps ''draw'' (PyInt 1)) = Inr d \<Longrightarrow>
         max 1 (nat ((T - a + 99) div 100)) \<le> fuel \<Longrightarrow>
         \<exists>c. walk fuel L server s rq = Some c
            \<and> length (requests c) = max 1 (nat ((T - a + 99) div 100))
            \<and> failure c = None"
proof (induction "nat (T - a)" arbitrary: a s rq ps d fuel rule: less_induct)
  case less
  let ?resp = "fetch server rq"
  let ?r = "parse L s ?resp"
  let ?nps = "AList.update ''start'' (PyStr (py_str_int (a + items_per_page_ajax)))
                 (AList.update ''draw'' (PyStr (py_str_int (d + 1))) ps)"
  let ?nrq = "\<lparr>request_url = ajax_url @ ''?'' @ query_string ?nps,
               request_headers = request_headers (request ?resp),
               params_template = Some ?nps\<rparr>"
  from srv[of rq] obtain data_json where
    dj: "json_loads L (response_text ?resp) = Some data_json"
    "well_formed_page data_json" "filtered_total data_json = PyInt T"
    by (auto simp: fetch_def)
  have ps: "params_template (request ?resp) = Some ps"
    using less.prems(2) by (simp add: fetch_def)
  note pu = parse_unlimited[OF dj less.prems(1) ps less.prems(3,4) refl]
  from less.prems(5) obtain f where fuel: "fuel = Suc f"
    by (cases fuel) auto
  define p where "p = max 1 (nat ((T - a + 99) div 100))"
  define p' where "p' = max 1 (nat ((T - (a + 100) + 99) div 100))"
  have "\<exists>c. walk fuel L server s rq = Some c \<and> length (requests c) = p \<and> failure c = None"
  proof (cases "a + 100 < T")
    case False
    then have rq': "requests_of (yields ?r) = []"
      using pu(2) by (simp add: items_per_page_ajax_def)
    have "p = 1"
      using pages_last[OF False] by (simp only: p_def)
    with pu(1) rq' fuel show ?thesis
      by (simp add: Let_def)
  next
    case True
    then have rq': "requests_of (yields ?r) = [?nrq]"
      using pu(2) by (simp add: items_per_page_ajax_def)
    have pp: "p = Suc p'"
      using pages_more[OF True] by (simp only: p_def p'_def)
    have m: "nat (T - (a + 100)) < nat (T - a)"
      using True by simp
    have l': "total_items_limit (spider_after ?r) = None"
      using less.prems(1) by simp
    have a': "py_int (dict_get ?nps ''start'' (PyInt 0)) = Inr (a + 100)"
      "py_int (dict_get ?nps ''draw'' (PyInt 1)) = Inr (d + 1)"
      using next_params(1,2)[OF refl, of "a + items_per_page_ajax" "d + 1" ps]
      by (simp_all add: items_per_page_ajax_def)
    have "p \<le> Suc f"
      using less.prems(5) fuel by (simp only: p_def)
    with pp have "p' \<le> f" by linarith
    then have f': "max 1 (nat ((T - (a + 100) + 99) div 100)) \<le> f"
      by (simp only: p'_def)
    from less.hyps[OF m l' _ a' f', of ?nrq] obtain c where
      c: "walk f L server (spider_after ?r) ?nrq = Some c"
      "length (requests c) = max 1 (nat ((T - (a + 100) + 99) div 100))"
      "failure c = None"
      by auto
    from c(2) have len: "length (requests c) = p'"
      by (simp only: p'_def)
    let ?c = "c\<lparr>requests := rq # requests c, items := items_of (yields ?r) @ items c\<rparr>"
    have w: "walk (Suc f) L server s rq = Some ?c"
      using rq' c(1) by (simp add: Let_def)
    have "length (requests ?c) = p" "failure ?c = None"
      using len pp c(3) by simp_all
    with w fuel show ?thesis by blast
  qed
  then show ?case
    by (simp only: p_def)
qed

text \<open>
  Claim C4, as the code has it. Against a server that reports the same filtered total
  \<open>T\<close> on every page (pages well-formed), the crawl without a limit ends, given enough
  fuel, after exactly \<open>\<lceil>T / P\<rceil>\<close> requests when \<open>T > 0\<close> and after exactly one request
  when \<open>T \<le> 0\<close>: the first request is always made. With \<open>T = P\<close> that is one request.
\<close>

theorem pagination_total:
  assumes "\<forall>rq. \<exists>data_json. json_loads L (server rq) = Some data_json
                  \<and> well_formed_page data_json \<and> filtered_total data_json = PyInt T"
    and "total_items_limit s = None"
    and "N = (if T \<le> 0 then 1
              else nat ((T + items_per_page_ajax - 1) div items_per_page_ajax))"
  shows "\<forall>fuel\<ge>N. \<exists>c. crawl fuel L server s = Some c
            \<and> length (requests c) = N \<and> failure c = None"
proof (intro allI impI)
  fix fuel
  assume fuel: "N \<le> fuel"
  obtain ps where ps: "params_template (start_requests s) = Some ps"
    and a: "dict_get ps ''start'' (PyInt 0) = PyStr ''0''"
    and d: "dict_get ps ''draw'' (PyInt 1) = PyStr ''1''"
    by (simp add: start_requests_def Let_def dict_get_update dict_get_def)
  have i: "py_int (dict_get ps ''start'' (PyInt 0)) = Inr 0"
    "py_int (dict_get ps ''draw'' (PyInt 1)) = Inr 1"
    unfolding a d
    by (simp_all add: py_int_str_def py_strip_def py_isspace_def py_nat_str_def is_digit_def
        digit_val_def)
  have n: "N = max 1 (nat ((T - 0 + 99) div 100))"
    unfolding assms(3) items_per_page_ajax_def by (auto simp: max_def)
  from walk_pages[OF _ assms(2) ps i, of L server T fuel] assms(1) fuel n
  show "\<exists>c. crawl fuel L server s = Some c \<and> length (requests c) = N \<and> failure c = None"
    by (simp add: crawl_def)
qed

theorem pagination_total_witness:
  "\<exists>c. crawl 3 (bench_lib (PyDict [(''recordsFiltered'', PyInt 250), (''data'', PyList [])]))
          bench_server (bench_spider None) = Some c
      \<and> length (requests c) = 3 \<and> failure c = None"
proof -
  let ?page = "PyDict [(''recordsFiltered'', PyInt 250), (''data'', PyList [])]"
  have srv: "\<forall>rq. \<exists>data_json. json_loads (bench_lib ?page) (bench_server rq) = Some data_json
                  \<and> well_formed_page data_json \<and> filtered_total data_json = PyInt 250"
    by (simp add: bench_lib_def bench_server_def well_formed_page_def filtered_total_def
        dict_get_def)
  have l: "total_items_limit (bench_spider None) = None"
    by (simp add: bench_spider_def)
  have n: "(3::nat) = (if (250::int) \<le> 0 then 1
              else nat ((250 + items_per_page_ajax - 1) div items_per_page_ajax))"
    by (simp add: items_per_page_ajax_def)
  from pagination_total[OF srv l n] show ?thesis
    by simp
qed

text \<open>
  The claim as stated fails at \<open>T = 0\<close>: \<open>\<lceil>0 / P\<rceil>\<close> is 0, and the walk issues one
  request, the first.
\<close>

theorem pagination_total_counterexample:
  "map_option (\<lambda>c. length (requests c))
     (crawl (Suc 0) (bench_lib (PyDict [(''recordsFiltered'', PyInt 0), (''data'', PyList [])]))
        bench_server (bench_spider None)) = Some 1
   \<and> (0 + items_per_page_ajax - 1) div items_per_page_ajax = 0"
  by (simp add: crawl_def parse_eval py_eval)

end
